theory Spec2Isabelle
  imports Complex_Main
begin

section \<open>Geo-Cam: the page script (camera, location, clock, capture)\<close>

text \<open>
  The development embeds the page script of the repository: the newer revision
  (\<^verbatim>\<open>src/unnamed/part_000\<close>, with the landscape panel) and, where the two differ, the
  older revision \<^verbatim>\<open>src/script.js\<close>.

  Conventions of the embedding.
  \<^item> A JavaScript number is the exact value of a double, a \<^typ>\<open>rat\<close>; the
    arithmetic of the layouts rounds every result to the nearest double. Pixel
    dimensions (\<^verbatim>\<open>videoWidth\<close>, \<^verbatim>\<open>canvas.width\<close>) are \<^typ>\<open>nat\<close>. The numbers of a position
    are given as exact values of doubles.
  \<^item> A JavaScript string is a \<^typ>\<open>string\<close>; one \<^typ>\<open>char\<close> stands for one UTF-16
    code unit, and every code unit the script writes is below 256.
  \<^item> The canvas is modelled by the sequence of calls and property assignments the
    script issues on it, in program order.
  \<^item> Globals and the DOM fields the script reads or writes form one record, passed
    in and returned; what the browser answers (the outcome of \<^verbatim>\<open>getUserMedia\<close>, the
    identifier of a location watch, the formatted clock strings) is an argument.
\<close>

subsection \<open>Canvas calls\<close>

datatype paint =
    Colour string
  | LinearGradient rat rat rat rat "(rat \<times> string) list"

datatype canvas_call =
    SetCanvasWidth nat
  | SetCanvasHeight nat
  | DrawImage rat rat rat rat
  | SetFillStyle paint
  | SetStrokeStyle paint
  | SetLineWidth rat
  | FillRect rat rat rat rat
  | StrokeRect rat rat rat rat
  | SetTextAlign string
  | SetFont nat rat
  | FillText string rat rat
  | BeginPath
  | MoveTo rat rat
  | LineTo rat rat
  | Stroke
  | ToBlob string rat

text \<open>
  \<open>SetFont weight px\<close> is the assignment
  \<^verbatim>\<open>context.font = `${weight} ${px}px -apple-system, BlinkMacSystemFont, sans-serif`\<close>;
  the family is the same in every assignment. \<open>LinearGradient x0 y0 x1 y1 stops\<close> is
  the object made by \<^verbatim>\<open>createLinearGradient(x0, y0, x1, y1)\<close> and the \<^verbatim>\<open>addColorStop\<close>
  calls that follow. \<open>ToBlob type quality\<close> is the export request
  \<^verbatim>\<open>canvas.toBlob(callback, type, quality)\<close>.
\<close>

subsection \<open>Arithmetic in doubles\<close>

text \<open>
  Every arithmetic operation of the script yields the double nearest to the exact
  result, a tie going to the even significand. \<open>fl\<close> rounds an exact value so: a
  positive value is scaled by powers of two into the range from \<open>2\<^sup>5\<^sup>2\<close> up to \<open>2\<^sup>5\<^sup>3\<close>,
  rounded to the nearest integer (\<open>rne\<close>) and scaled back. The exponent is not
  bounded: overflow and subnormal numbers are not modelled, and the layouts stay far
  from both. A decimal literal in an expression denotes \<open>fl\<close> of its fraction; an
  integer below \<open>2\<^sup>5\<^sup>3\<close> is a double as it stands.
\<close>

definition rne :: "rat \<Rightarrow> int" where
  "rne q =
     (let f = \<lfloor>q\<rfloor>; r = q - of_int f
      in if r < 1 / 2 then f
         else if 1 / 2 < r then f + 1
         else if even f then f else f + 1)"

function round53 :: "rat \<Rightarrow> rat" where
  "round53 x =
     (if x \<le> 0 then 0
      else if 2 ^ 53 \<le> x then 2 * round53 (x / 2)
      else if x < 2 ^ 52 then round53 (2 * x) / 2
      else of_int (rne x))"
  by pat_completeness auto

definition round53_measure :: "rat \<Rightarrow> nat" where
  "round53_measure x =
     (if x \<le> 0 then 0
      else if x < 2 ^ 52 then nat \<lceil>2 ^ 52 / x\<rceil> + 2 ^ 53
      else nat \<lfloor>x\<rfloor>)"

lemma halving_floor:
  fixes x :: rat
  assumes "2 \<le> x"
  shows "nat \<lfloor>x / 2\<rfloor> < nat \<lfloor>x\<rfloor>"
proof -
  have "x / 2 \<le> x - 1"
    using assms by simp
  then have "\<lfloor>x / 2\<rfloor> \<le> \<lfloor>x - 1\<rfloor>"
    by (rule floor_mono)
  then have "\<lfloor>x / 2\<rfloor> < \<lfloor>x\<rfloor>"
    by simp
  moreover have "0 < \<lfloor>x\<rfloor>"
    using assms by simp
  ultimately show ?thesis
    by simp
qed

lemma doubling_ceiling:
  fixes v :: rat
  assumes "2 \<le> v"
  shows "nat \<lceil>v / 2\<rceil> < nat \<lceil>v\<rceil>"
proof -
  have "v / 2 \<le> v - 1"
    using assms by simp
  then have "\<lceil>v / 2\<rceil> \<le> \<lceil>v - 1\<rceil>"
    by (rule ceiling_mono)
  then have "\<lceil>v / 2\<rceil> < \<lceil>v\<rceil>"
    by simp
  moreover have "0 < \<lceil>v\<rceil>"
    using assms by simp
  ultimately show ?thesis
    by simp
qed

lemma round53_measure_halve:
  assumes "2 ^ 53 \<le> x"
  shows "round53_measure (x / 2) < round53_measure x"
proof -
  from assms have "2 \<le> x"
    by simp
  then have "nat \<lfloor>x / 2\<rfloor> < nat \<lfloor>x\<rfloor>"
    by (rule halving_floor)
  with assms show ?thesis
    by (simp add: round53_measure_def)
qed

lemma round53_measure_double:
  assumes pos: "0 < x" and small: "x < 2 ^ 52"
  shows "round53_measure (2 * x) < round53_measure x"
proof (cases "2 * x < 2 ^ 52")
  case True
  with pos have "2 \<le> 2 ^ 52 / x"
    by (simp add: field_simps)
  then have "nat \<lceil>2 ^ 52 / x / 2\<rceil> < nat \<lceil>2 ^ 52 / x\<rceil>"
    by (rule doubling_ceiling)
  moreover have "2 ^ 52 / (2 * x) = 2 ^ 52 / x / 2"
    by simp
  ultimately have "nat \<lceil>2 ^ 52 / (2 * x)\<rceil> < nat \<lceil>2 ^ 52 / x\<rceil>"
    by (simp only:)
  moreover have "round53_measure (2 * x) = nat \<lceil>2 ^ 52 / (2 * x)\<rceil> + 2 ^ 53"
    using pos True by (simp add: round53_measure_def)
  moreover have "round53_measure x = nat \<lceil>2 ^ 52 / x\<rceil> + 2 ^ 53"
    using pos small by (simp add: round53_measure_def)
  ultimately show ?thesis
    by linarith
next
  case False
  from small have "2 * x < 2 ^ 53"
    by simp
  then have "\<lfloor>2 * x\<rfloor> < 9007199254740992"
    by (simp add: floor_less_iff)
  then have "nat \<lfloor>2 * x\<rfloor> < 9007199254740992"
    by linarith
  then have "nat \<lfloor>2 * x\<rfloor> < 2 ^ 53"
    by simp
  moreover have "round53_measure (2 * x) = nat \<lfloor>2 * x\<rfloor>"
    using pos False by (simp add: round53_measure_def)
  moreover have "round53_measure x = nat \<lceil>2 ^ 52 / x\<rceil> + 2 ^ 53"
    using pos small by (simp add: round53_measure_def)
  ultimately show ?thesis
    by linarith
qed

termination round53
proof (relation "measure round53_measure")
  show "wf (measure round53_measure)"
    by simp
next
  fix x :: rat
  assume "\<not> x \<le> 0" and "2 ^ 53 \<le> x"
  then show "(x / 2, x) \<in> measure round53_measure"
    by (simp only: in_measure round53_measure_halve)
next
  fix x :: rat
  assume "\<not> x \<le> 0" and "\<not> 2 ^ 53 \<le> x" and "x < 2 ^ 52"
  then show "(2 * x, x) \<in> measure round53_measure"
    by (simp only: in_measure round53_measure_double not_le)
qed

declare round53.simps [simp del]

definition fl :: "rat \<Rightarrow> rat" where
  "fl x = (if x < 0 then - round53 (- x) else round53 x)"

text \<open>The four operations the script uses, on doubles.\<close>

definition js_add :: "rat \<Rightarrow> rat \<Rightarrow> rat" where
  "js_add a b = fl (a + b)"

definition js_sub :: "rat \<Rightarrow> rat \<Rightarrow> rat" where
  "js_sub a b = fl (a - b)"

definition js_mul :: "rat \<Rightarrow> rat \<Rightarrow> rat" where
  "js_mul a b = fl (a * b)"

definition js_div :: "rat \<Rightarrow> rat \<Rightarrow> rat" where
  "js_div a b = fl (a / b)"

text \<open>The numbers with a significand of 53 bits, whatever the exponent.\<close>

definition rep53 :: "rat \<Rightarrow> bool" where
  "rep53 x \<longleftrightarrow>
     (\<exists>(m :: int) (a :: nat). \<bar>m\<bar> < 2 ^ 53 \<and> (x = of_int m * 2 ^ a \<or> x = of_int m / 2 ^ a))"

subsection \<open>The landscape layout of \<^verbatim>\<open>capturePhoto\<close>\<close>

text \<open>
  \<^verbatim>\<open>const baseFontSize = Math.floor(canvas.width / 30)\<close>, computed before the branch and
  used by the landscape branch only, and
  \<^verbatim>\<open>const overlayWidth = Math.floor(canvas.width * 0.30)\<close>. Both are given by their exact
  values; for every width below \<open>2\<^sup>3\<^sup>2\<close> the floor of the rounded quotient and of the
  rounded product are these values (\<open>baseFontSize_fl\<close> and \<open>overlayWidth_fl\<close> below).
\<close>

definition baseFontSize :: "nat \<Rightarrow> rat" where
  "baseFontSize w = of_int \<lfloor>of_nat w / (30 :: rat)\<rfloor>"

definition overlayWidth :: "nat \<Rightarrow> rat" where
  "overlayWidth w = of_int \<lfloor>of_nat w * (30 / 100 :: rat)\<rfloor>"

text \<open>
  The other constants of the landscape branch, in the order the script computes
  them; \<open>b\<close> is the base font size.
\<close>

definition padding :: "rat \<Rightarrow> rat" where
  "padding b = js_mul b (fl (12 / 10))"

definition itemSpacing :: "rat \<Rightarrow> rat" where
  "itemSpacing b = js_mul b (fl (25 / 10))"

definition headerFontSize :: "rat \<Rightarrow> rat" where
  "headerFontSize b = js_mul b (fl (14 / 10))"

definition labelFontSize :: "rat \<Rightarrow> rat" where
  "labelFontSize b = js_mul b (fl (9 / 10))"

definition valueFontSize :: "rat \<Rightarrow> rat" where
  "valueFontSize b = js_mul b (fl (9 / 10))"

definition overlayHeight :: "rat \<Rightarrow> rat" where
  "overlayHeight b =
     js_add (js_add (js_mul (padding b) 2) (headerFontSize b)) (js_mul (itemSpacing b) 4)"

definition overlayX :: "nat \<Rightarrow> rat \<Rightarrow> rat" where
  "overlayX w b = js_sub (js_sub (of_nat w) (overlayWidth w)) (padding b)"

definition overlayY :: "nat \<Rightarrow> rat \<Rightarrow> rat" where
  "overlayY h b = js_sub (js_sub (of_nat h) (overlayHeight b)) (padding b)"

definition rowPadding :: "rat \<Rightarrow> rat" where
  "rowPadding b = js_mul (padding b) (fl (8 / 10))"

text \<open>
  The inner function \<^verbatim>\<open>drawInfoRow(label, value, yPos)\<close>. It closes over the width of
  the raster and the base font size; it returns the calls it issues and the
  position of the next row, \<^verbatim>\<open>yPos + itemSpacing\<close>.
\<close>

definition drawInfoRow ::
  "nat \<Rightarrow> rat \<Rightarrow> string \<Rightarrow> string \<Rightarrow> rat \<Rightarrow> canvas_call list \<times> rat" where
  "drawInfoRow w b label val yPos =
     ([SetStrokeStyle (Colour ''rgba(255, 255, 255, 0.1)''),
       SetLineWidth 1,
       BeginPath,
       MoveTo (js_add (overlayX w b) (rowPadding b)) yPos,
       LineTo (js_sub (js_add (overlayX w b) (overlayWidth w)) (rowPadding b)) yPos,
       Stroke,
       SetFillStyle (Colour ''rgba(255, 255, 255, 0.8)''),
       SetTextAlign ''left'',
       SetFont 500 (labelFontSize b),
       FillText label (js_add (overlayX w b) (rowPadding b))
         (js_add yPos (js_mul (labelFontSize b) (fl (14 / 10)))),
       SetFillStyle (Colour ''white''),
       SetTextAlign ''right'',
       SetFont 600 (valueFontSize b),
       FillText val (js_sub (js_add (overlayX w b) (overlayWidth w)) (rowPadding b))
         (js_add yPos (js_mul (valueFontSize b) (fl (14 / 10))))],
      js_add yPos (itemSpacing b))"

text \<open>
  The landscape branch: panel, border, gradient, panel and border again, the
  centred header, then the four rows, each starting where the previous one ended.
  The offsets of the colour stops are literals handed to the browser.
\<close>

definition landscape_layout ::
  "nat \<Rightarrow> nat \<Rightarrow> rat \<Rightarrow> string \<Rightarrow> string \<Rightarrow> string \<Rightarrow> string \<Rightarrow> canvas_call list" where
  "landscape_layout w h b coordinates altitude accuracy datetime =
     (let oW = overlayWidth w; pad = padding b; oH = overlayHeight b;
          oX = overlayX w b; oY = overlayY h b;
          panel = [SetFillStyle (Colour ''rgba(255, 255, 255, 0.15)''),
                   FillRect oX oY oW oH,
                   SetStrokeStyle (Colour ''rgba(255, 255, 255, 0.2)''),
                   SetLineWidth 1,
                   StrokeRect oX oY oW oH];
          gradient = LinearGradient (js_sub (js_sub (of_nat w) oW) (js_mul pad 2)) oY
                       (of_nat w) oY
                       [(0, ''rgba(0, 0, 0, 0)''),
                        (3 / 10, ''rgba(0, 0, 0, 0.3)''),
                        (1, ''rgba(0, 0, 0, 0.6)'')];
          y0 = js_add oY (js_mul pad (fl (12 / 10)));
          header = [SetFillStyle (Colour ''white''),
                    SetTextAlign ''center'',
                    SetFont 600 (headerFontSize b),
                    FillText ''GPS Cam by solvepao research'' (js_add oX (js_div oW 2))
                      (js_add y0 (js_mul (headerFontSize b) (fl (8 / 10))))];
          y1 = js_add y0 (js_add (headerFontSize b) (js_mul pad (fl (13 / 10))));
          labelFont = [SetFont 500 (labelFontSize b)];
          (row1, y2) = drawInfoRow w b ''Coordinates'' coordinates y1;
          (row2, y3) = drawInfoRow w b ''Altitude'' altitude y2;
          (row3, y4) = drawInfoRow w b ''Accuracy'' accuracy y3;
          (row4, y5) = drawInfoRow w b ''Date & Time'' datetime y4
      in panel
         @ [SetFillStyle gradient,
            FillRect (js_sub (js_sub (of_nat w) oW) (js_mul pad 3)) (js_sub oY pad)
              (js_add oW (js_mul pad 3)) (js_add oH (js_mul pad 2))]
         @ panel @ header @ labelFont @ row1 @ row2 @ row3 @ row4)"

subsection \<open>The portrait layout of \<^verbatim>\<open>capturePhoto\<close>\<close>

text \<open>
  \<^verbatim>\<open>const fontSize = Math.floor(canvas.width / 25)\<close>, the font size of the portrait
  branch (and of the whole overlay in the older revision), given by its exact value
  (\<open>fontSize_fl\<close> below).
\<close>

definition fontSize :: "nat \<Rightarrow> rat" where
  "fontSize w = of_int \<lfloor>of_nat w / (25 :: rat)\<rfloor>"

text \<open>
  The band across the top and five left-aligned lines. The header string differs
  between the two revisions, so it is an argument.
\<close>

definition portrait_layout ::
  "string \<Rightarrow> nat \<Rightarrow> string \<Rightarrow> string \<Rightarrow> string \<Rightarrow> string \<Rightarrow> canvas_call list" where
  "portrait_layout brand w coordinates altitude accuracy datetime =
     (let fs = fontSize w;
          y0 = js_mul fs (fl (15 / 10));
          pad = js_mul fs (fl (8 / 10));
          y1 = js_add y0 (js_mul fs (fl (18 / 10)));
          y2 = js_add y1 (js_mul fs (fl (12 / 10)));
          y3 = js_add y2 (js_mul fs (fl (12 / 10)));
          y4 = js_add y3 (js_mul fs (fl (12 / 10)))
      in [SetFillStyle (Colour ''rgba(0, 0, 0, 0.7)''),
          FillRect 0 0 (of_nat w) (js_mul fs 8),
          SetFillStyle (Colour ''white''),
          SetTextAlign ''left'',
          SetFont 700 (js_mul fs (fl (12 / 10))),
          FillText brand pad y0,
          SetFont 500 (js_mul fs (fl (8 / 10))),
          FillText (''Coordinates: '' @ coordinates) pad y1,
          FillText (''Altitude: '' @ altitude) pad y2,
          FillText (''Accuracy: '' @ accuracy) pad y3,
          FillText (''Date & Time: '' @ datetime) pad y4])"

subsection \<open>The state of the page\<close>

text \<open>
  \<^verbatim>\<open>facingMode\<close> only ever holds the strings \<^verbatim>\<open>'environment'\<close> and \<^verbatim>\<open>'user'\<close>. A track of
  a media stream is live until it is stopped. The errors are those with which
  \<^verbatim>\<open>getUserMedia\<close> rejects, those a location watch reports, and the \<^verbatim>\<open>TypeError\<close> of a
  call with an argument of the wrong type.
\<close>

datatype facing = Environment | User

datatype readyState = Live | Ended

datatype js_error =
    NotAllowedError
  | NotFoundError
  | NotReadableError
  | OverconstrainedError
  | OtherCameraError
  | PermissionDenied
  | PositionUnavailable
  | Timeout
  | TypeError

datatype gum_outcome = Granted | Rejected js_error

text \<open>
  What the script asks of the browser outside the canvas, in program order: stopping
  a track of a stream, \<^verbatim>\<open>getUserMedia\<close> (facing mode, ideal width and height),
  \<^verbatim>\<open>watchPosition\<close> (high accuracy, timeout, maximum age), \<^verbatim>\<open>setInterval\<close> (period),
  \<^verbatim>\<open>console.error\<close> (label and error).
\<close>

datatype host_call =
    TrackStop nat nat
  | GetUserMedia facing nat nat
  | WatchPosition bool nat nat
  | SetInterval nat
  | ConsoleError string js_error

text \<open>
  The globals \<^verbatim>\<open>stream\<close>, \<^verbatim>\<open>facingMode\<close>, \<^verbatim>\<open>watchId\<close>; the DOM fields the script touches;
  and, outside the script, the streams the browser has handed out so far
  (\<open>hardware\<close>: the tracks of each, a stream handle being its index) and the calls
  made so far. \<^verbatim>\<open>null\<close> is \<^term>\<open>None\<close>.
\<close>

record page =
  stream :: "nat option"
  facingMode :: facing
  watchId :: "nat option"
  srcObject :: "nat option"
  videoWidth :: nat
  videoHeight :: nat
  canvasWidth :: nat
  canvasHeight :: nat
  permissionDisplay :: string
  coordinatesText :: string
  coordinatesLoading :: bool
  altitudeText :: string
  accuracyText :: string
  datetimeText :: string
  hardware :: "readyState list list"
  calls :: "host_call list"

text \<open>
  The page when the script has been loaded and nothing has run yet. The markup is
  not part of the sources: the four labels are taken empty and the canvas has the
  default size of an HTML canvas.
\<close>

definition initial_page :: page where
  "initial_page =
     \<lparr>stream = None, facingMode = Environment, watchId = None, srcObject = None,
      videoWidth = 0, videoHeight = 0, canvasWidth = 300, canvasHeight = 150,
      permissionDisplay = [], coordinatesText = [], coordinatesLoading = True,
      altitudeText = [], accuracyText = [], datetimeText = [],
      hardware = [], calls = []\<rparr>"

subsection \<open>\<^verbatim>\<open>capturePhoto\<close>\<close>

text \<open>
  The newer revision. The canvas takes the size of the video frame, the frame is
  drawn, \<^verbatim>\<open>canvas.width > canvas.height\<close> selects the layout, and the export is
  requested. There is no other statement in the function. The quality \<^verbatim>\<open>0.95\<close> is a
  literal handed to the browser, written as its decimal fraction.
\<close>

definition capturePhoto :: "page \<Rightarrow> canvas_call list \<times> page" where
  "capturePhoto p =
     (let p' = p\<lparr>canvasWidth := videoWidth p, canvasHeight := videoHeight p\<rparr>;
          w = canvasWidth p'; h = canvasHeight p';
          isLandscape = (w > h)
      in ([SetCanvasWidth w, SetCanvasHeight h, DrawImage 0 0 (of_nat w) (of_nat h)]
          @ (if isLandscape
             then landscape_layout w h (baseFontSize w)
                    (coordinatesText p') (altitudeText p') (accuracyText p') (datetimeText p')
             else portrait_layout ''GPS Cam by solvepao research'' w
                    (coordinatesText p') (altitudeText p') (accuracyText p') (datetimeText p'))
          @ [ToBlob ''image/jpeg'' (95 / 100)],
          p'))"

text \<open>
  The older revision (\<^verbatim>\<open>src/script.js\<close>): no orientation test; the font is set once
  before the band is filled, and the header reads differently.
\<close>

definition capturePhoto_script :: "page \<Rightarrow> canvas_call list \<times> page" where
  "capturePhoto_script p =
     (let p' = p\<lparr>canvasWidth := videoWidth p, canvasHeight := videoHeight p\<rparr>;
          w = canvasWidth p'; h = canvasHeight p'
      in ([SetCanvasWidth w, SetCanvasHeight h, DrawImage 0 0 (of_nat w) (of_nat h),
           SetFont 600 (fontSize w)]
          @ portrait_layout ''SolvePao Research'' w
              (coordinatesText p') (altitudeText p') (accuracyText p') (datetimeText p')
          @ [ToBlob ''image/jpeg'' (95 / 100)],
          p'))"

text \<open>
  The callback of the export: a link whose \<^verbatim>\<open>download\<close> attribute is
  \<^verbatim>\<open>`solvepao_${Date.now()}.jpg`\<close> is clicked. \<^verbatim>\<open>Date.now()\<close> is an integer, written in
  decimal digits.
\<close>

fun decimal :: "nat \<Rightarrow> string" where
  "decimal n =
     (if n < 10 then [''0123456789'' ! n]
      else decimal (n div 10) @ [''0123456789'' ! (n mod 10)])"

declare decimal.simps [simp del]

definition download_name :: "int \<Rightarrow> string" where
  "download_name now =
     ''solvepao_'' @ (if now < 0 then ''-'' else []) @ decimal (nat \<bar>now\<bar>) @ ''.jpg''"

text \<open>
  A blob is described by the calls that painted the canvas since it was sized, by
  the type and by the quality. The pixels of the video frame that \<^verbatim>\<open>drawImage\<close> copies
  are not part of the description: two blobs of one description have the same
  geometry and the same text, over whatever frames the video showed. The calls of
  the callback:
  \<^verbatim>\<open>URL.createObjectURL(blob)\<close>, the new link, its \<^verbatim>\<open>href\<close> and \<^verbatim>\<open>download\<close>, the click that
  saves the file, and \<^verbatim>\<open>URL.revokeObjectURL(url)\<close>; the URL stands for its blob.
\<close>

datatype blob = Blob "canvas_call list" string rat

datatype save_call =
    CreateObjectURL blob
  | CreateAnchor
  | SetHref blob
  | SetDownload string
  | Click
  | RevokeObjectURL blob

text \<open>
  The callback \<^verbatim>\<open>(blob) => { ... }\<close> handed to \<^verbatim>\<open>toBlob\<close>, run when the clock reads \<open>now\<close>. The
  browser may pass \<^verbatim>\<open>null\<close> for the blob; \<^verbatim>\<open>URL.createObjectURL(null)\<close> throws a \<^verbatim>\<open>TypeError\<close>,
  and the statements after it do not run.
\<close>

definition toBlob_callback :: "int \<Rightarrow> blob option \<Rightarrow> js_error + save_call list" where
  "toBlob_callback now b =
     (case b of
        None \<Rightarrow> Inl TypeError
      | Some blob \<Rightarrow>
          Inr [CreateObjectURL blob, CreateAnchor, SetHref blob,
               SetDownload (download_name now), Click, RevokeObjectURL blob])"

text \<open>
  The browser's part of \<^verbatim>\<open>canvas.toBlob\<close>, after the HTML standard: a canvas without
  pixels (zero width or zero height) gives \<^verbatim>\<open>null\<close>; otherwise the blob is the picture
  painted before the request, in the type and quality of the request. An encoder
  that fails on a canvas with pixels is not modelled.
\<close>

definition html_toBlob :: "nat \<Rightarrow> nat \<Rightarrow> canvas_call list \<Rightarrow> string \<Rightarrow> rat \<Rightarrow> blob option" where
  "html_toBlob w h painted type quality =
     (if w = 0 \<or> h = 0 then None else Some (Blob painted type quality))"

text \<open>
  What follows a capture. When the last call of the capture is the export request,
  the browser serialises what the calls before it painted on the canvas the capture
  left, and the callback runs on the result when the clock reads \<open>now\<close>; without a
  request no callback runs.
\<close>

definition save_action :: "int \<Rightarrow> canvas_call list \<times> page \<Rightarrow> js_error + save_call list" where
  "save_action now capture =
     (let (cs, p) = capture
      in if cs = [] then Inr []
         else (case last cs of
                 ToBlob type quality \<Rightarrow>
                   toBlob_callback now
                     (html_toBlob (canvasWidth p) (canvasHeight p) (butlast cs) type quality)
               | _ \<Rightarrow> Inr []))"

subsection \<open>Reading the canvas calls\<close>

text \<open>
  The vertical positions of the separator lines of the rows (the \<^verbatim>\<open>moveTo\<close> calls),
  the widths of the stroked rectangles (the border of the panel), the differences
  of neighbours in a list, and the texts drawn. Reading a string of digits back
  is the inverse of \<open>decimal\<close>.
\<close>

fun row_tops :: "canvas_call list \<Rightarrow> rat list" where
  "row_tops [] = []"
| "row_tops (MoveTo x y # cs) = y # row_tops cs"
| "row_tops (_ # cs) = row_tops cs"

fun panel_widths :: "canvas_call list \<Rightarrow> rat list" where
  "panel_widths [] = []"
| "panel_widths (StrokeRect x y wd ht # cs) = wd # panel_widths cs"
| "panel_widths (_ # cs) = panel_widths cs"

fun gaps :: "rat list \<Rightarrow> rat list" where
  "gaps (a # b # ys) = (b - a) # gaps (b # ys)"
| "gaps _ = []"

fun texts :: "canvas_call list \<Rightarrow> string list" where
  "texts [] = []"
| "texts (FillText t x y # cs) = t # texts cs"
| "texts (_ # cs) = texts cs"

definition undecimal :: "string \<Rightarrow> nat" where
  "undecimal cs = foldl (\<lambda>a c. 10 * a + (of_char c - 48)) 0 cs"

subsection \<open>Number formatting: \<^verbatim>\<open>Number.prototype.toFixed\<close>\<close>

text \<open>
  The built-in of the language, after its definition in ECMAScript, for a finite
  number \<open>x\<close> and \<open>f\<close> fraction digits (the script passes 6 and 1): the sign is split
  off; at or beyond \<open>10\<^sup>2\<^sup>1\<close> the result is that of \<^verbatim>\<open>Number::toString\<close> (exponent
  notation, an argument here); otherwise \<open>n\<close> is the integer nearest to \<open>x \<times> 10\<^sup>f\<close>,
  the larger one on a tie, written in decimal digits, padded with zeros on the left
  to \<open>f + 1\<close> digits, with the point before the last \<open>f\<close> digits.
\<close>

definition toFixed :: "(rat \<Rightarrow> string) \<Rightarrow> nat \<Rightarrow> rat \<Rightarrow> string" where
  "toFixed numberToString f x0 =
     (let s = (if x0 < 0 then ''-'' else []);
          x = (if x0 < 0 then - x0 else x0)
      in if 10 ^ 21 \<le> x then s @ numberToString x
         else (let n = nat \<lfloor>x * 10 ^ f + 1 / 2\<rfloor>;
                   m0 = decimal n;
                   m = (if length m0 \<le> f then replicate (f + 1 - length m0) CHR ''0'' @ m0 else m0);
                   k = length m
               in if f = 0 then s @ m0
                  else s @ take (k - f) m @ ''.'' @ drop (k - f) m))"

subsection \<open>Location\<close>

text \<open>
  A position as the location watch delivers it. \<^verbatim>\<open>altitude\<close> may be \<^verbatim>\<open>null\<close>; the script
  tests \<^verbatim>\<open>accuracy\<close> against \<^verbatim>\<open>null\<close> as well.
\<close>

record coords =
  latitude :: rat
  longitude :: rat
  altitude :: "rat option"
  accuracy :: "rat option"

text \<open>
  \<^verbatim>\<open>updatePosition\<close>, newer revision. The template literal of the accuracy holds the two
  code units U+00C2 U+00B1 before the number (the bytes \<^verbatim>\<open>c3 82 c2 b1\<close> of the file,
  read as UTF-8).
\<close>

definition updatePosition :: "(rat \<Rightarrow> string) \<Rightarrow> coords \<Rightarrow> page \<Rightarrow> page" where
  "updatePosition numberToString position p =
     (let lat = toFixed numberToString 6 (latitude position);
          lon = toFixed numberToString 6 (longitude position)
      in p\<lparr>coordinatesText := lat @ '', '' @ lon,
            coordinatesLoading := False,
            altitudeText :=
              (case altitude position of
                 Some a \<Rightarrow> toFixed numberToString 1 a @ '' m''
               | None \<Rightarrow> ''N/A''),
            accuracyText :=
              (case accuracy position of
                 Some a \<Rightarrow> [CHR 0xC2, CHR 0xB1] @ toFixed numberToString 1 a @ '' m''
               | None \<Rightarrow> ''N/A'')\<rparr>)"

text \<open>
  \<^verbatim>\<open>updatePosition\<close>, older revision (\<^verbatim>\<open>src/script.js\<close>): the same function, but the
  template literal of the accuracy holds the single code unit U+00B1 (the bytes
  \<^verbatim>\<open>c2 b1\<close>).
\<close>

definition updatePosition_script :: "(rat \<Rightarrow> string) \<Rightarrow> coords \<Rightarrow> page \<Rightarrow> page" where
  "updatePosition_script numberToString position p =
     (let lat = toFixed numberToString 6 (latitude position);
          lon = toFixed numberToString 6 (longitude position)
      in p\<lparr>coordinatesText := lat @ '', '' @ lon,
            coordinatesLoading := False,
            altitudeText :=
              (case altitude position of
                 Some a \<Rightarrow> toFixed numberToString 1 a @ '' m''
               | None \<Rightarrow> ''N/A''),
            accuracyText :=
              (case accuracy position of
                 Some a \<Rightarrow> [CHR 0xB1] @ toFixed numberToString 1 a @ '' m''
               | None \<Rightarrow> ''N/A'')\<rparr>)"

definition handleLocationError :: "js_error \<Rightarrow> page \<Rightarrow> page" where
  "handleLocationError error p =
     p\<lparr>calls := calls p @ [ConsoleError ''Location error:'' error],
       coordinatesText := ''Location unavailable'',
       coordinatesLoading := False\<rparr>"

text \<open>
  \<^verbatim>\<open>startLocationTracking\<close>. The argument is \<^term>\<open>None\<close> when \<^verbatim>\<open>navigator.geolocation\<close> is
  missing, and otherwise the identifier \<^verbatim>\<open>watchPosition\<close> returns.
\<close>

definition startLocationTracking :: "nat option \<Rightarrow> page \<Rightarrow> page" where
  "startLocationTracking geolocation p =
     (case geolocation of
        None \<Rightarrow> p\<lparr>coordinatesText := ''Geolocation not supported''\<rparr>
      | Some wid \<Rightarrow> p\<lparr>calls := calls p @ [WatchPosition True 5000 0], watchId := Some wid\<rparr>)"

subsection \<open>Clock\<close>

text \<open>The two arguments are the strings the locale formatting of the browser returns.\<close>

definition updateClock :: "string \<Rightarrow> string \<Rightarrow> page \<Rightarrow> page" where
  "updateClock dateStr timeStr p = p\<lparr>datetimeText := dateStr @ '' '' @ timeStr\<rparr>"

definition startClock :: "string \<Rightarrow> string \<Rightarrow> page \<Rightarrow> page" where
  "startClock dateStr timeStr p =
     (let p' = updateClock dateStr timeStr p
      in p'\<lparr>calls := calls p' @ [SetInterval 1000]\<rparr>)"

subsection \<open>Camera\<close>

definition showPermissionMessage :: "page \<Rightarrow> page" where
  "showPermissionMessage p = p\<lparr>permissionDisplay := ''flex''\<rparr>"

text \<open>
  \<^verbatim>\<open>stream.getTracks().forEach(track => track.stop())\<close>: every track of the stream is
  stopped, in order.
\<close>

definition tracks_of :: "page \<Rightarrow> nat \<Rightarrow> readyState list" where
  "tracks_of p s = (if s < length (hardware p) then hardware p ! s else [])"

definition stop_tracks :: "nat \<Rightarrow> page \<Rightarrow> page" where
  "stop_tracks s p =
     p\<lparr>hardware := (hardware p)[s := map (\<lambda>t. Ended) (tracks_of p s)],
       calls := calls p @ map (TrackStop s) [0 ..< length (tracks_of p s)]\<rparr>"

text \<open>
  \<^verbatim>\<open>startCamera\<close> is an \<^verbatim>\<open>async\<close> function with one \<^verbatim>\<open>await\<close>. Up to the \<^verbatim>\<open>await\<close> it stops the
  tracks of the stream the global holds, if any, and calls \<^verbatim>\<open>getUserMedia\<close> with the
  facing mode the global holds then.
\<close>

definition startCamera_request :: "page \<Rightarrow> page" where
  "startCamera_request p =
     (let p1 = (case stream p of None \<Rightarrow> p | Some s \<Rightarrow> stop_tracks s p)
      in p1\<lparr>calls := calls p1 @ [GetUserMedia (facingMode p1) 1920 1080]\<rparr>)"

text \<open>
  The browser grants a request by opening the device: a new stream with one live
  video track (the constraints ask for video only).
\<close>

definition grant :: "page \<Rightarrow> nat \<times> page" where
  "grant p = (length (hardware p), p\<lparr>hardware := hardware p @ [[Live]]\<rparr>)"

text \<open>
  After the \<^verbatim>\<open>await\<close>: with a stream, the global and the preview take it and the
  prompt is hidden; with a rejection, the \<^verbatim>\<open>catch\<close> block logs the error, shows the
  prompt and throws the error again (\<^term>\<open>Inl\<close>).
\<close>

definition startCamera_settle :: "gum_outcome \<Rightarrow> page \<Rightarrow> (js_error + unit) \<times> page" where
  "startCamera_settle outcome p =
     (case outcome of
        Granted \<Rightarrow>
          (let (s, p1) = grant p
           in (Inr (), p1\<lparr>stream := Some s, srcObject := Some s, permissionDisplay := ''none''\<rparr>))
      | Rejected error \<Rightarrow>
          (Inl error,
           showPermissionMessage (p\<lparr>calls := calls p @ [ConsoleError ''Camera error:'' error]\<rparr>)))"

text \<open>A call of \<^verbatim>\<open>startCamera\<close> that nothing interrupts at its \<^verbatim>\<open>await\<close>.\<close>

definition startCamera :: "gum_outcome \<Rightarrow> page \<Rightarrow> (js_error + unit) \<times> page" where
  "startCamera outcome p = startCamera_settle outcome (startCamera_request p)"

text \<open>
  \<^verbatim>\<open>toggleCamera\<close>: the global is flipped, then \<^verbatim>\<open>startCamera\<close> is awaited; there is no
  \<^verbatim>\<open>try\<close>, so a rejection passes through.
\<close>

definition toggleCamera_request :: "page \<Rightarrow> page" where
  "toggleCamera_request p =
     startCamera_request
       (p\<lparr>facingMode := (if facingMode p = Environment then User else Environment)\<rparr>)"

definition toggleCamera :: "gum_outcome \<Rightarrow> page \<Rightarrow> (js_error + unit) \<times> page" where
  "toggleCamera outcome p = startCamera_settle outcome (toggleCamera_request p)"

text \<open>
  \<^verbatim>\<open>init\<close>: the three start functions inside one \<^verbatim>\<open>try\<close>; its \<^verbatim>\<open>catch\<close> block logs the
  error and shows the prompt, and \<^verbatim>\<open>init\<close> returns normally.
\<close>

definition init :: "gum_outcome \<Rightarrow> nat option \<Rightarrow> string \<Rightarrow> string \<Rightarrow> page \<Rightarrow> page" where
  "init outcome geolocation dateStr timeStr p =
     (case startCamera outcome p of
        (Inr u, p1) \<Rightarrow> startClock dateStr timeStr (startLocationTracking geolocation p1)
      | (Inl error, p1) \<Rightarrow>
          showPermissionMessage
            (p1\<lparr>calls := calls p1 @ [ConsoleError ''Initialization error:'' error]\<rparr>))"

subsection \<open>Calls that overlap at the \<^verbatim>\<open>await\<close>\<close>

text \<open>
  The click handlers are not disabled while a request is pending, so a call may
  begin while an earlier one waits at its \<^verbatim>\<open>await\<close>. An event is the synchronous part
  of a call, or the settling of one pending request; every pending continuation is
  the same code, so the state is the page with the number of pending requests.
  A settling with nothing pending does not happen.
\<close>

datatype event = CallStartCamera | CallToggleCamera | Settle gum_outcome

fun step :: "event \<Rightarrow> page \<times> nat \<Rightarrow> page \<times> nat" where
  "step CallStartCamera (p, pending) = (startCamera_request p, Suc pending)"
| "step CallToggleCamera (p, pending) = (toggleCamera_request p, Suc pending)"
| "step (Settle outcome) (p, 0) = (p, 0)"
| "step (Settle outcome) (p, Suc pending) = (snd (startCamera_settle outcome p), pending)"

fun run :: "event list \<Rightarrow> page \<times> nat \<Rightarrow> page \<times> nat" where
  "run [] st = st"
| "run (e # es) st = run es (step e st)"

text \<open>A camera session is open when its stream has a live track.\<close>

definition open_sessions :: "page \<Rightarrow> nat list" where
  "open_sessions p = filter (\<lambda>s. Live \<in> set (tracks_of p s)) [0 ..< length (hardware p)]"

text \<open>
  Calls that do not overlap: every call is settled before the next one begins.
\<close>

fun serial :: "event list \<Rightarrow> bool" where
  "serial [] = True"
| "serial (Settle outcome # es) = False"
| "serial [c] = True"
| "serial (c # Settle outcome # es) = serial es"
| "serial (c # c' # es) = False"

text \<open>
  The stream the global holds is the only one that may be open.
\<close>

definition owned :: "page \<Rightarrow> bool" where
  "owned p \<longleftrightarrow> set (open_sessions p) \<subseteq> set_option (stream p)"

subsection \<open>Double precision\<close>

text \<open>
  The width of the landscape panel is the floor of a product with the literal
  \<^verbatim>\<open>0.30\<close>, which no double equals. To compare the exact floors with what a double
  evaluation yields there, the finite doubles are the numbers \<open>m \<times> 2\<^sup>e\<close> with
  \<open>|m| < 2\<^sup>5\<^sup>3\<close> and \<open>-1074 \<le> e \<le> 971\<close>; a literal and the result of an operation
  are a double nearest to the exact value; and \<open>double_030\<close> is the double that
  \<^verbatim>\<open>0.30\<close> denotes. This specification is independent of \<open>fl\<close>, which is shown to
  meet it (\<open>nearest_double_fl\<close> below).
\<close>

definition is_double :: "rat \<Rightarrow> bool" where
  "is_double y \<longleftrightarrow>
     (\<exists>(m :: int) (a :: nat). \<bar>m\<bar> < 2 ^ 53
        \<and> ((a \<le> 971 \<and> y = of_int m * 2 ^ a) \<or> (a \<le> 1074 \<and> y = of_int m / 2 ^ a)))"

definition nearest_double :: "rat \<Rightarrow> rat \<Rightarrow> bool" where
  "nearest_double x y \<longleftrightarrow> is_double y \<and> (\<forall>z. is_double z \<longrightarrow> \<bar>x - y\<bar> \<le> \<bar>x - z\<bar>)"

definition double_030 :: rat where
  "double_030 = 5404319552844595 / 2 ^ 54"

subsection \<open>Example pages\<close>

definition landscape_page :: page where
  "landscape_page = initial_page\<lparr>videoWidth := 1920, videoHeight := 1080\<rparr>"

definition portrait_page :: page where
  "portrait_page = initial_page\<lparr>videoWidth := 1080, videoHeight := 1920\<rparr>"

definition square_page :: page where
  "square_page = initial_page\<lparr>videoWidth := 1000, videoHeight := 1000\<rparr>"

definition flat_page :: page where
  "flat_page = initial_page\<lparr>videoWidth := 1920, videoHeight := 0\<rparr>"

text \<open>
  A position whose fields are the doubles nearest to 37.422999, \<open>-\<close>122.084057, 123.456
  and 5.2, written as exact fractions.
\<close>

definition example_fix :: coords where
  "example_fix =
     \<lparr>latitude = 5266818885983951 / 140737488355328,
      longitude = - (4295450887602175 / 35184372088832),
      altitude = Some (8687443681197687 / 70368744177664),
      accuracy = Some (5854679515581645 / 1125899906842624)\<rparr>"

section \<open>Properties\<close>

subsection \<open>Rounding to doubles\<close>

lemma floor_rat_numeral: "\<lfloor>numeral a / numeral b :: rat\<rfloor> = numeral a div numeral b"
  by (metis floor_divide_of_int_eq of_int_numeral)

lemma fl_zero: "fl 0 = 0"
  by (simp add: fl_def round53.simps)

lemma js_mul_zero: "js_mul 0 x = 0"
  by (simp add: js_mul_def fl_zero)

lemma js_add_zero: "js_add 0 0 = 0"
  by (simp add: js_add_def fl_zero)

lemma rne_floor_or_next: "rne q = \<lfloor>q\<rfloor> \<or> rne q = \<lfloor>q\<rfloor> + 1"
  by (simp add: rne_def Let_def)

lemma rne_error: "\<bar>of_int (rne q) - q\<bar> \<le> 1 / 2"
proof -
  define r where "r = q - of_int \<lfloor>q\<rfloor>"
  have r0: "0 \<le> r" and r1: "r < 1"
    unfolding r_def by linarith+
  have q: "q = of_int \<lfloor>q\<rfloor> + r"
    by (simp add: r_def)
  consider "r < 1 / 2" | "1 / 2 < r" | "r = 1 / 2"
    by linarith
  then show ?thesis
  proof cases
    case 1
    then have "rne q = \<lfloor>q\<rfloor>"
      by (simp add: rne_def r_def Let_def)
    with q r0 1 show ?thesis
      by linarith
  next
    case 2
    then have "rne q = \<lfloor>q\<rfloor> + 1"
      by (simp add: rne_def r_def Let_def)
    then have "of_int (rne q) = of_int \<lfloor>q\<rfloor> + (1 :: rat)"
      by simp
    with q r1 2 show ?thesis
      by linarith
  next
    case 3
    from rne_floor_or_next [of q]
    have "of_int (rne q) = (of_int \<lfloor>q\<rfloor> :: rat) \<or> of_int (rne q) = of_int \<lfloor>q\<rfloor> + (1 :: rat)"
      by auto
    with q 3 show ?thesis
      by auto
  qed
qed

lemma rne_of_int: "rne (of_int k) = k"
  by (simp add: rne_def)

lemma round53_error:
  "0 < x \<Longrightarrow> \<bar>round53 x - x\<bar> \<le> x / 2 ^ 53"
proof (induction x rule: round53.induct)
  case (1 x)
  show ?case
  proof (cases "2 ^ 53 \<le> x")
    case True
    with 1 have "\<bar>round53 (x / 2) - x / 2\<bar> \<le> x / 2 / 2 ^ 53"
      by simp
    moreover have "round53 x = 2 * round53 (x / 2)"
      using True "1.prems" by (subst round53.simps) simp
    ultimately show ?thesis
      by (simp add: abs_if split: if_splits)
  next
    case False
    show ?thesis
    proof (cases "x < 2 ^ 52")
      case True
      with 1 False have "\<bar>round53 (2 * x) - 2 * x\<bar> \<le> 2 * x / 2 ^ 53"
        by simp
      moreover have "round53 x = round53 (2 * x) / 2"
        using True False "1.prems" by (subst round53.simps) simp
      ultimately show ?thesis
        by (simp add: abs_if split: if_splits)
    next
      case large: False
      have "round53 x = of_int (rne x)"
        using large False "1.prems" by (subst round53.simps) simp
      moreover have "1 / 2 \<le> x / 2 ^ 53"
        using large by simp
      ultimately show ?thesis
        using rne_error [of x] by simp
    qed
  qed
qed

lemma fl_error: "\<bar>fl x - x\<bar> \<le> \<bar>x\<bar> / 2 ^ 53"
proof (cases "0 < x")
  case True
  with round53_error [of x] show ?thesis
    by (simp add: fl_def)
next
  case False
  show ?thesis
  proof (cases "x = 0")
    case True
    then show ?thesis
      by (simp add: fl_def round53.simps)
  next
    case nz: False
    with False have neg: "x < 0"
      by simp
    then have "\<bar>round53 (- x) - (- x)\<bar> \<le> (- x) / 2 ^ 53"
      by (intro round53_error) simp
    with neg show ?thesis
      by (simp add: fl_def abs_if split: if_splits)
  qed
qed

lemma rep53_double: "rep53 x \<Longrightarrow> rep53 (2 * x)"
proof -
  assume "rep53 x"
  then obtain m :: int and a :: nat
    where m: "\<bar>m\<bar> < 2 ^ 53" and x: "x = of_int m * 2 ^ a \<or> x = of_int m / 2 ^ a"
    unfolding rep53_def by blast
  from x show ?thesis
  proof
    assume "x = of_int m * 2 ^ a"
    then have "2 * x = of_int m * 2 ^ Suc a"
      by simp
    with m show ?thesis
      unfolding rep53_def by blast
  next
    assume q: "x = of_int m / 2 ^ a"
    show ?thesis
    proof (cases a)
      case 0
      with q have "2 * x = of_int m * 2 ^ Suc 0"
        by simp
      with m show ?thesis
        unfolding rep53_def by blast
    next
      case (Suc a')
      with q have "2 * x = of_int m / 2 ^ a'"
        by simp
      with m show ?thesis
        unfolding rep53_def by blast
    qed
  qed
qed

lemma rep53_half: "rep53 x \<Longrightarrow> rep53 (x / 2)"
proof -
  assume "rep53 x"
  then obtain m :: int and a :: nat
    where m: "\<bar>m\<bar> < 2 ^ 53" and x: "x = of_int m * 2 ^ a \<or> x = of_int m / 2 ^ a"
    unfolding rep53_def by blast
  from x show ?thesis
  proof
    assume q: "x = of_int m / 2 ^ a"
    then have "x / 2 = of_int m / 2 ^ Suc a"
      by simp
    with m show ?thesis
      unfolding rep53_def by blast
  next
    assume p: "x = of_int m * 2 ^ a"
    show ?thesis
    proof (cases a)
      case 0
      with p have "x / 2 = of_int m / 2 ^ Suc 0"
        by simp
      with m show ?thesis
        unfolding rep53_def by blast
    next
      case (Suc a')
      with p have "x / 2 = of_int m * 2 ^ a'"
        by simp
      with m show ?thesis
        unfolding rep53_def by blast
    qed
  qed
qed

lemma rep53_integer:
  assumes "rep53 x" and lo: "2 ^ 52 \<le> x"
  shows "\<exists>k :: int. x = of_int k"
proof -
  from assms(1) obtain m :: int and a :: nat
    where m: "\<bar>m\<bar> < 2 ^ 53" and x: "x = of_int m * 2 ^ a \<or> x = of_int m / 2 ^ a"
    unfolding rep53_def by blast
  from x show ?thesis
  proof
    assume "x = of_int m * 2 ^ a"
    then have "x = of_int (m * 2 ^ a)"
      by simp
    then show ?thesis ..
  next
    assume q: "x = of_int m / 2 ^ a"
    define p :: rat where "p = 2 ^ a"
    have p0: "0 < p"
      by (simp add: p_def)
    have xp: "x * p = of_int m"
      using q by (simp add: p_def)
    from m have "m < 2 ^ 53"
      by simp
    then have "(of_int m :: rat) < of_int (2 ^ 53)"
      by (simp only: of_int_less_iff)
    with xp have "x * p < 2 ^ 53"
      by simp
    moreover have "2 ^ 52 * p \<le> x * p"
      using lo p0 by (simp only: mult_le_cancel_right_pos)
    ultimately have "p < 2 ^ 1"
      by simp
    then have "a < 1"
      unfolding p_def
      by (simp only: power_strict_increasing_iff [of "2 :: rat"] one_less_numeral_iff
          semiring_norm)
    with q have "x = of_int m"
      by simp
    then show ?thesis ..
  qed
qed

lemma round53_rep53: "0 < x \<Longrightarrow> rep53 x \<Longrightarrow> round53 x = x"
proof (induction x rule: round53.induct)
  case (1 x)
  show ?case
  proof (cases "2 ^ 53 \<le> x")
    case True
    with 1 have "round53 (x / 2) = x / 2"
      by (simp add: rep53_half)
    moreover have "round53 x = 2 * round53 (x / 2)"
      using True "1.prems" by (subst round53.simps) simp
    ultimately show ?thesis
      by simp
  next
    case False
    show ?thesis
    proof (cases "x < 2 ^ 52")
      case True
      with 1 False have "round53 (2 * x) = 2 * x"
        by (simp add: rep53_double)
      moreover have "round53 x = round53 (2 * x) / 2"
        using True False "1.prems" by (subst round53.simps) simp
      ultimately show ?thesis
        by simp
    next
      case large: False
      have "round53 x = of_int (rne x)"
        using large False "1.prems" by (subst round53.simps) simp
      moreover from "1.prems" large obtain k :: int where "x = of_int k"
        using rep53_integer [of x] by auto
      ultimately show ?thesis
        by (simp add: rne_of_int)
    qed
  qed
qed

lemma fl_rep53: "0 \<le> x \<Longrightarrow> rep53 x \<Longrightarrow> fl x = x"
proof (cases "x = 0")
  case True
  then show ?thesis
    by (simp add: fl_def round53.simps)
next
  case False
  moreover assume "0 \<le> x" and "rep53 x"
  ultimately show ?thesis
    by (simp add: fl_def round53_rep53)
qed

lemma fl_half_integer:
  assumes "n < 2 ^ 50"
  shows "fl (of_nat n * (5 / 2)) = of_nat n * (5 / 2)"
proof (rule fl_rep53)
  show "(0 :: rat) \<le> of_nat n * (5 / 2)"
    by simp
  have "\<bar>5 * int n\<bar> < 2 ^ 53"
    using assms by simp
  moreover have "(of_nat n * (5 / 2) :: rat) = of_int (5 * int n) / 2 ^ 1"
    by simp
  ultimately show "rep53 (of_nat n * (5 / 2))"
    unfolding rep53_def by blast
qed

text \<open>
  No number with a significand of 53 bits is closer to \<open>x\<close> than \<open>fl x\<close>.
\<close>

lemma rne_nearest: "\<bar>of_int (rne q) - q\<bar> \<le> \<bar>of_int k - q\<bar>"
proof (cases "k = rne q")
  case True
  then show ?thesis
    by simp
next
  case False
  then have "1 \<le> \<bar>k - rne q\<bar>"
    by linarith
  then have "(1 :: rat) \<le> of_int \<bar>k - rne q\<bar>"
    by (simp only: of_int_1_le_iff)
  then have "1 \<le> \<bar>of_int k - of_int (rne q) :: rat\<bar>"
    by simp
  with rne_error [of q] show ?thesis
    by linarith
qed

lemma rep53_neg: "rep53 x \<Longrightarrow> rep53 (- x)"
proof -
  assume "rep53 x"
  then obtain m :: int and a :: nat
    where m: "\<bar>m\<bar> < 2 ^ 53" and x: "x = of_int m * 2 ^ a \<or> x = of_int m / 2 ^ a"
    unfolding rep53_def by blast
  from m have "\<bar>- m\<bar> < 2 ^ 53"
    by simp
  moreover from x have "- x = of_int (- m) * 2 ^ a \<or> - x = of_int (- m) / 2 ^ a"
    by auto
  ultimately show ?thesis
    unfolding rep53_def by blast
qed

lemma round53_nearest:
  "0 < x \<Longrightarrow> rep53 z \<Longrightarrow> \<bar>round53 x - x\<bar> \<le> \<bar>z - x\<bar>"
proof (induction x arbitrary: z rule: round53.induct)
  case (1 x)
  show ?case
  proof (cases "2 ^ 53 \<le> x")
    case True
    from "1.prems" have "rep53 (z / 2)"
      by (intro rep53_half)
    with 1 True have "\<bar>round53 (x / 2) - x / 2\<bar> \<le> \<bar>z / 2 - x / 2\<bar>"
      by simp
    moreover have "round53 x = 2 * round53 (x / 2)"
      using True "1.prems" by (subst round53.simps) simp
    ultimately show ?thesis
      by (simp add: abs_if split: if_splits)
  next
    case False
    show ?thesis
    proof (cases "x < 2 ^ 52")
      case True
      from "1.prems" have "rep53 (2 * z)"
        by (intro rep53_double)
      with 1 True False have "\<bar>round53 (2 * x) - 2 * x\<bar> \<le> \<bar>2 * z - 2 * x\<bar>"
        by simp
      moreover have "round53 x = round53 (2 * x) / 2"
        using True False "1.prems" by (subst round53.simps) simp
      ultimately show ?thesis
        by (simp add: abs_if split: if_splits)
    next
      case large: False
      have r: "round53 x = of_int (rne x)"
        using large False "1.prems" by (subst round53.simps) simp
      show ?thesis
      proof (cases "2 ^ 52 \<le> z")
        case True
        with "1.prems" obtain k :: int where "z = of_int k"
          using rep53_integer [of z] by blast
        with rne_nearest [of x k] r show ?thesis
          by simp
      next
        case small: False
        have "\<bar>of_int (rne x) - x\<bar> \<le> \<bar>of_int (2 ^ 52) - x\<bar>"
          by (rule rne_nearest)
        with small large r show ?thesis
          by simp
      qed
    qed
  qed
qed

lemma fl_nearest: "rep53 z \<Longrightarrow> \<bar>fl x - x\<bar> \<le> \<bar>z - x\<bar>"
proof -
  assume z: "rep53 z"
  consider "0 < x" | "x = 0" | "x < 0"
    by linarith
  then show ?thesis
  proof cases
    assume "0 < x"
    with z round53_nearest [of x z] show ?thesis
      by (simp add: fl_def)
  next
    assume "x = 0"
    then show ?thesis
      by (simp add: fl_def round53.simps)
  next
    assume neg: "x < 0"
    from z have "rep53 (- z)"
      by (rule rep53_neg)
    with neg round53_nearest [of "- x" "- z"] show ?thesis
      by (simp add: fl_def)
  qed
qed

text \<open>
  The spacing of the rows is exact: \<open>2.5\<close> is a double, and so is 2.5 times an
  integer below \<open>2\<^sup>5\<^sup>0\<close>.
\<close>

lemma itemSpacing_exact:
  assumes "k < 2 ^ 50"
  shows "itemSpacing (of_nat k) = 25 / 10 * of_nat k"
proof -
  have literal: "fl (5 / 2) = 5 / 2"
    by (simp add: fl_def round53.simps rne_def floor_rat_numeral Let_def)
  have "itemSpacing (of_nat k) = fl (of_nat k * (5 / 2))"
    by (simp add: itemSpacing_def js_mul_def literal)
  also have "\<dots> = of_nat k * (5 / 2)"
    using assms by (rule fl_half_integer)
  finally show ?thesis
    by simp
qed

subsection \<open>Auxiliary facts\<close>

lemma row_tops_append: "row_tops (xs @ ys) = row_tops xs @ row_tops ys"
  by (induction xs rule: row_tops.induct) simp_all

lemma panel_widths_append: "panel_widths (xs @ ys) = panel_widths xs @ panel_widths ys"
  by (induction xs rule: panel_widths.induct) simp_all

lemma fontSize_div: "fontSize w = of_nat (w div 25)"
proof -
  have "\<lfloor>of_nat w / (of_nat 25 :: rat)\<rfloor> = int (w div 25)"
    by (rule floor_divide_of_nat_eq)
  then show ?thesis
    by (simp add: fontSize_def)
qed

lemma baseFontSize_div: "baseFontSize w = of_nat (w div 30)"
proof -
  have "\<lfloor>of_nat w / (of_nat 30 :: rat)\<rfloor> = int (w div 30)"
    by (rule floor_divide_of_nat_eq)
  then show ?thesis
    by (simp add: baseFontSize_def)
qed

lemma floor_three_tenths: "\<lfloor>of_nat W * (30 / 100 :: rat)\<rfloor> = int (3 * W div 10)"
proof -
  have "of_nat W * (30 / 100 :: rat) = of_int (int (3 * W)) / of_int 10"
    by simp
  then have "\<lfloor>of_nat W * (30 / 100 :: rat)\<rfloor> = int (3 * W) div 10"
    by (simp only: floor_divide_of_int_eq)
  then show ?thesis
    by (simp add: zdiv_int)
qed

lemma row_tops_landscape:
  "row_tops (landscape_layout w h b c a r d) =
     (let y1 = js_add (js_add (overlayY h b) (js_mul (padding b) (fl (12 / 10))))
                 (js_add (headerFontSize b) (js_mul (padding b) (fl (13 / 10))))
      in [y1,
          js_add y1 (itemSpacing b),
          js_add (js_add y1 (itemSpacing b)) (itemSpacing b),
          js_add (js_add (js_add y1 (itemSpacing b)) (itemSpacing b)) (itemSpacing b)])"
  by (simp add: landscape_layout_def drawInfoRow_def Let_def)

lemma panel_widths_landscape:
  "panel_widths (landscape_layout w h b c a r d) = [overlayWidth w, overlayWidth w]"
  by (simp add: landscape_layout_def drawInfoRow_def Let_def)

subsection \<open>Orientation\<close>

text \<open>
  Claim C1. \<^verbatim>\<open>capturePhoto\<close> runs the landscape layout exactly when the width of the
  raster is strictly greater than its height, and the portrait layout otherwise,
  the tie included. The calls are the resize and the blit, then the calls of one of
  the two layouts, then the export request; and the output tells which layout ran:
  the centred header occurs only in the landscape layout, the dark band only in the
  portrait layout.
\<close>

theorem capturePhoto_orientation:
  "fst (capturePhoto p) =
     [SetCanvasWidth (videoWidth p), SetCanvasHeight (videoHeight p),
      DrawImage 0 0 (of_nat (videoWidth p)) (of_nat (videoHeight p))]
     @ (if videoWidth p > videoHeight p
        then landscape_layout (videoWidth p) (videoHeight p) (baseFontSize (videoWidth p))
               (coordinatesText p) (altitudeText p) (accuracyText p) (datetimeText p)
        else portrait_layout ''GPS Cam by solvepao research'' (videoWidth p)
               (coordinatesText p) (altitudeText p) (accuracyText p) (datetimeText p))
     @ [ToBlob ''image/jpeg'' (95 / 100)]
   \<and> (SetTextAlign ''center'' \<in> set (fst (capturePhoto p))
        \<longleftrightarrow> videoWidth p > videoHeight p)
   \<and> (SetFillStyle (Colour ''rgba(0, 0, 0, 0.7)'') \<in> set (fst (capturePhoto p))
        \<longleftrightarrow> \<not> videoWidth p > videoHeight p)"
proof -
  have calls: "fst (capturePhoto p) =
     [SetCanvasWidth (videoWidth p), SetCanvasHeight (videoHeight p),
      DrawImage 0 0 (of_nat (videoWidth p)) (of_nat (videoHeight p))]
     @ (if videoWidth p > videoHeight p
        then landscape_layout (videoWidth p) (videoHeight p) (baseFontSize (videoWidth p))
               (coordinatesText p) (altitudeText p) (accuracyText p) (datetimeText p)
        else portrait_layout ''GPS Cam by solvepao research'' (videoWidth p)
               (coordinatesText p) (altitudeText p) (accuracyText p) (datetimeText p))
     @ [ToBlob ''image/jpeg'' (95 / 100)]"
    by (simp add: capturePhoto_def Let_def)
  have header: "SetTextAlign ''center'' \<in> set (fst (capturePhoto p))
        \<longleftrightarrow> videoWidth p > videoHeight p"
    by (simp add: capturePhoto_def Let_def landscape_layout_def drawInfoRow_def
        portrait_layout_def)
  have band: "SetFillStyle (Colour ''rgba(0, 0, 0, 0.7)'') \<in> set (fst (capturePhoto p))
        \<longleftrightarrow> \<not> videoWidth p > videoHeight p"
    by (simp add: capturePhoto_def Let_def landscape_layout_def drawInfoRow_def
        portrait_layout_def)
  from calls header band show ?thesis
    by blast
qed

text \<open>
  At 1920\<times>1080 the centred header is drawn and the band is not; at 1080\<times>1920 and at
  1000\<times>1000 it is the other way round.
\<close>

theorem capturePhoto_orientation_witness:
  "SetTextAlign ''center'' \<in> set (fst (capturePhoto landscape_page))
   \<and> SetFillStyle (Colour ''rgba(0, 0, 0, 0.7)'') \<notin> set (fst (capturePhoto landscape_page))
   \<and> SetTextAlign ''center'' \<notin> set (fst (capturePhoto portrait_page))
   \<and> SetFillStyle (Colour ''rgba(0, 0, 0, 0.7)'') \<in> set (fst (capturePhoto portrait_page))
   \<and> SetTextAlign ''center'' \<notin> set (fst (capturePhoto square_page))
   \<and> SetFillStyle (Colour ''rgba(0, 0, 0, 0.7)'') \<in> set (fst (capturePhoto square_page))"
proof -
  have l: "videoWidth landscape_page > videoHeight landscape_page"
    by (simp add: landscape_page_def initial_page_def)
  have p: "\<not> videoWidth portrait_page > videoHeight portrait_page"
    by (simp add: portrait_page_def initial_page_def)
  have s: "\<not> videoWidth square_page > videoHeight square_page"
    by (simp add: square_page_def initial_page_def)
  from l p s capturePhoto_orientation [of landscape_page]
    capturePhoto_orientation [of portrait_page] capturePhoto_orientation [of square_page]
  show ?thesis
    by blast
qed

subsection \<open>Row spacing of the landscape layout\<close>

text \<open>
  The layout of a 1920\<times>1080 frame, evaluated: the base font size is 64, and the
  doubles of the script are the following.
\<close>

lemma literal_12: "fl (6 / 5) = 5404319552844595 / 4503599627370496"
  by (simp add: fl_def round53.simps rne_def floor_rat_numeral Let_def)

lemma literal_25: "fl (5 / 2) = 5 / 2"
  by (simp add: fl_def round53.simps rne_def floor_rat_numeral Let_def)

lemma literal_14: "fl (7 / 5) = 3152519739159347 / 2251799813685248"
  by (simp add: fl_def round53.simps rne_def floor_rat_numeral Let_def)

lemma literal_13: "fl (13 / 10) = 5854679515581645 / 4503599627370496"
  by (simp add: fl_def round53.simps rne_def floor_rat_numeral Let_def)

lemma padding_64: "padding 64 = 5404319552844595 / 70368744177664"
  by (simp add: padding_def js_mul_def literal_12 fl_def round53.simps rne_def floor_rat_numeral Let_def)

lemma itemSpacing_64: "itemSpacing 64 = 160"
  by (simp add: itemSpacing_def js_mul_def literal_25 fl_def round53.simps rne_def floor_rat_numeral Let_def)

lemma headerFontSize_64: "headerFontSize 64 = 3152519739159347 / 35184372088832"
  by (simp add: headerFontSize_def js_mul_def literal_14 fl_def round53.simps rne_def floor_rat_numeral Let_def)

lemma overlayHeight_64: "overlayHeight 64 = 3884354678607053 / 4398046511104"
  by (simp add: overlayHeight_def js_add_def js_mul_def padding_64 headerFontSize_64
      itemSpacing_64 fl_def round53.simps rne_def floor_rat_numeral Let_def)

lemma overlayY_1080_64: "overlayY 1080 64 = 8444249301319677 / 70368744177664"
  by (simp add: overlayY_def js_sub_def overlayHeight_64 padding_64 fl_def round53.simps rne_def floor_rat_numeral Let_def)

lemma row_tops_1920_1080:
  "row_tops (landscape_layout 1920 1080 64 c a r d) =
     [7065021915437465 / 17592186044416,
      1234971460318003 / 2199023255552,
      1586815181206323 / 2199023255552,
      1938658902094643 / 2199023255552]"
  by (simp add: row_tops_landscape js_add_def js_mul_def overlayY_1080_64 padding_64
      headerFontSize_64 itemSpacing_64 literal_12 literal_13 fl_def round53.simps rne_def floor_rat_numeral Let_def)

text \<open>
  The portrait layout rounds too: at a width of 1920 the font of the four lines,
  \<^verbatim>\<open>fontSize * 0.8\<close>, is 60.800000000000004 and not 60.8.
\<close>

lemma portrait_font_1920:
  "js_mul (fontSize 1920) (fl (8 / 10)) = 8556839292003943 / 140737488355328
   \<and> js_mul (fontSize 1920) (fl (8 / 10)) \<noteq> 608 / 10"
  by (simp add: fontSize_div js_mul_def fl_def round53.simps rne_def floor_rat_numeral Let_def)

text \<open>
  Claim C2, as stated, at 1920\<times>1080: the rows are \<open>160 - 2\<^sup>-\<^sup>4\<^sup>4\<close>, 160 and 160 apart,
  the spacing being 2.5 times \<open>\<lfloor>1920 / 30\<rfloor> = 64\<close>, whereas 2.5 times
  \<open>\<lfloor>1920 / 25\<rfloor> = 76\<close> is 190.
\<close>

theorem landscape_row_spacing_counterexample:
  "gaps (row_tops (fst (capturePhoto landscape_page))) = [160 - 1 / 2 ^ 44, 160, 160]
   \<and> 25 / 10 * fontSize (videoWidth landscape_page) = 190
   \<and> gaps (row_tops (fst (capturePhoto landscape_page)))
       \<noteq> [25 / 10 * fontSize (videoWidth landscape_page),
          25 / 10 * fontSize (videoWidth landscape_page),
          25 / 10 * fontSize (videoWidth landscape_page)]"
  by (simp add: capturePhoto_def row_tops_append row_tops_1920_1080 Let_def
      baseFontSize_div fontSize_div landscape_page_def initial_page_def)

text \<open>
  Claim C2, amended. In the landscape layout there are four rows, and the top of
  each row after the first is the top of the row before plus one fixed spacing,
  the sum rounded to a double; the spacing is exactly 2.5 times the base font size
  of that layout, which is \<open>\<lfloor>width / 30\<rfloor>\<close>. So two neighbouring tops differ by the
  spacing up to the rounding of one addition.
\<close>

theorem landscape_row_spacing:
  "videoWidth p > videoHeight p \<Longrightarrow> videoWidth p < 2 ^ 32 \<Longrightarrow>
   (let ys = row_tops (fst (capturePhoto p));
        s = 25 / 10 * baseFontSize (videoWidth p)
    in length ys = 4
       \<and> ys ! 1 = js_add (ys ! 0) s
       \<and> ys ! 2 = js_add (ys ! 1) s
       \<and> ys ! 3 = js_add (ys ! 2) s
       \<and> \<bar>ys ! 1 - ys ! 0 - s\<bar> \<le> \<bar>ys ! 0 + s\<bar> / 2 ^ 53
       \<and> \<bar>ys ! 2 - ys ! 1 - s\<bar> \<le> \<bar>ys ! 1 + s\<bar> / 2 ^ 53
       \<and> \<bar>ys ! 3 - ys ! 2 - s\<bar> \<le> \<bar>ys ! 2 + s\<bar> / 2 ^ 53)
   \<and> itemSpacing (baseFontSize (videoWidth p)) = 25 / 10 * baseFontSize (videoWidth p)
   \<and> baseFontSize (videoWidth p) = of_nat (videoWidth p div 30)"
proof -
  assume landscape: "videoWidth p > videoHeight p" and width: "videoWidth p < 2 ^ 32"
  let ?b = "baseFontSize (videoWidth p)"
  let ?s = "25 / 10 * ?b"
  let ?ys = "row_tops (fst (capturePhoto p))"
  define y1 where
    "y1 = js_add (js_add (overlayY (videoHeight p) ?b) (js_mul (padding ?b) (fl (12 / 10))))
            (js_add (headerFontSize ?b) (js_mul (padding ?b) (fl (13 / 10))))"
  have b: "?b = of_nat (videoWidth p div 30)"
    by (simp add: baseFontSize_div)
  have "videoWidth p div 30 < 2 ^ 50"
    using width by simp
  then have spacing: "itemSpacing ?b = ?s"
    unfolding b by (rule itemSpacing_exact)
  have ys: "?ys = [y1, js_add y1 ?s, js_add (js_add y1 ?s) ?s,
                   js_add (js_add (js_add y1 ?s) ?s) ?s]"
    using landscape
    by (simp add: capturePhoto_def row_tops_append row_tops_landscape Let_def spacing y1_def)
  have step: "\<bar>js_add y s - y - s\<bar> \<le> \<bar>y + s\<bar> / 2 ^ 53" for y s
  proof -
    have sum: "js_add y s - y - s = fl (y + s) - (y + s)"
      by (simp add: js_add_def)
    show ?thesis
      unfolding sum by (rule fl_error)
  qed
  have n: "length ?ys = 4"
    by (simp add: ys)
  have s1: "?ys ! 1 = js_add (?ys ! 0) ?s"
    by (simp add: ys)
  have s2: "?ys ! 2 = js_add (?ys ! 1) ?s"
    by (simp add: ys)
  have s3: "?ys ! 3 = js_add (?ys ! 2) ?s"
    by (simp add: ys)
  have e1: "\<bar>?ys ! 1 - ?ys ! 0 - ?s\<bar> \<le> \<bar>?ys ! 0 + ?s\<bar> / 2 ^ 53"
    unfolding s1 by (rule step)
  have e2: "\<bar>?ys ! 2 - ?ys ! 1 - ?s\<bar> \<le> \<bar>?ys ! 1 + ?s\<bar> / 2 ^ 53"
    unfolding s2 by (rule step)
  have e3: "\<bar>?ys ! 3 - ?ys ! 2 - ?s\<bar> \<le> \<bar>?ys ! 2 + ?s\<bar> / 2 ^ 53"
    unfolding s3 by (rule step)
  from n s1 s2 s3 e1 e2 e3 spacing b show ?thesis
    unfolding Let_def by (intro conjI)
qed

theorem landscape_row_spacing_witness:
  "videoWidth landscape_page > videoHeight landscape_page
   \<and> videoWidth landscape_page < 2 ^ 32
   \<and> length (row_tops (fst (capturePhoto landscape_page))) = 4
   \<and> row_tops (fst (capturePhoto landscape_page)) ! 1
       = js_add (row_tops (fst (capturePhoto landscape_page)) ! 0) 160
   \<and> itemSpacing (baseFontSize (videoWidth landscape_page)) = 160
   \<and> baseFontSize (videoWidth landscape_page) = 64"
proof -
  have l: "videoWidth landscape_page > videoHeight landscape_page"
    by (simp add: landscape_page_def initial_page_def)
  have w: "videoWidth landscape_page < 2 ^ 32"
    by (simp add: landscape_page_def initial_page_def)
  have v: "videoWidth landscape_page = 1920"
    by (simp add: landscape_page_def initial_page_def)
  from landscape_row_spacing [OF l w]
  have "baseFontSize (videoWidth landscape_page) = 64"
    by (simp add: v)
  with l w landscape_row_spacing [OF l w] show ?thesis
    by (simp add: Let_def)
qed

subsection \<open>Width of the landscape panel\<close>

text \<open>
  Claim C6. In the landscape layout the panel, drawn twice, has the width
  \<open>\<lfloor>0.30 \<times> W\<rfloor>\<close> for the width \<open>W\<close> of the raster, which is \<open>3 W div 10\<close> in integer
  arithmetic; at \<open>W = 1920\<close> it is 576. (The next subsection shows that rounding to
  doubles does not change this value.)
\<close>

theorem landscape_panel_width:
  "videoWidth p > videoHeight p \<Longrightarrow>
   panel_widths (fst (capturePhoto p))
     = [of_int \<lfloor>of_nat (videoWidth p) * (30 / 100 :: rat)\<rfloor>,
        of_int \<lfloor>of_nat (videoWidth p) * (30 / 100 :: rat)\<rfloor>]
   \<and> \<lfloor>of_nat (videoWidth p) * (30 / 100 :: rat)\<rfloor> = int (3 * videoWidth p div 10)"
proof -
  assume "videoWidth p > videoHeight p"
  then have "panel_widths (fst (capturePhoto p))
     = [of_int \<lfloor>of_nat (videoWidth p) * (30 / 100 :: rat)\<rfloor>,
        of_int \<lfloor>of_nat (videoWidth p) * (30 / 100 :: rat)\<rfloor>]"
    by (simp add: capturePhoto_def panel_widths_append panel_widths_landscape Let_def
        overlayWidth_def)
  moreover have "\<lfloor>of_nat (videoWidth p) * (30 / 100 :: rat)\<rfloor> = int (3 * videoWidth p div 10)"
    by (rule floor_three_tenths)
  ultimately show ?thesis
    by (rule conjI)
qed

theorem landscape_panel_width_witness:
  "videoWidth landscape_page > videoHeight landscape_page
   \<and> panel_widths (fst (capturePhoto landscape_page)) = [576, 576]"
proof -
  have l: "videoWidth landscape_page > videoHeight landscape_page"
    by (simp add: landscape_page_def initial_page_def)
  have w: "videoWidth landscape_page = 1920"
    by (simp add: landscape_page_def initial_page_def)
  from l landscape_panel_width [OF l] show ?thesis
    by (simp add: w)
qed

subsection \<open>The width of the panel in double precision\<close>

lemma is_double_of_nat:
  assumes "n < 2 ^ 53"
  shows "is_double (of_nat n)"
proof -
  have "\<bar>int n\<bar> < 2 ^ 53"
    using assms by (simp add: of_nat_less_numeral_power_cancel_iff)
  moreover have "(of_nat n :: rat) = of_int (int n) * 2 ^ 0"
    by simp
  ultimately show ?thesis
    unfolding is_double_def by (intro exI [of _ "int n"] exI [of _ "0 :: nat"]) simp
qed

lemma is_double_sixteenths:
  assumes "n < 2 ^ 48"
  shows "is_double (of_nat n + 15 / 16)"
proof -
  have "\<bar>16 * int n + 15\<bar> < 2 ^ 53"
    using assms by simp
  moreover have "(of_nat n + 15 / 16 :: rat) = of_int (16 * int n + 15) / 2 ^ 4"
    by simp
  ultimately show ?thesis
    unfolding is_double_def
    by (intro exI [of _ "16 * int n + 15"] exI [of _ "4 :: nat"]) simp
qed

lemma product_030: "of_nat W * double_030 = of_nat (3 * W) / 10 - of_nat W / (5 * 2 ^ 54)"
  by (simp add: double_030_def field_simps)

text \<open>
  When \<open>3 W\<close> is not a multiple of 10 the exact product lies between an integer and
  that integer plus 15/16, both doubles, and so does a nearest double.
\<close>

lemma floor_double_product_inexact:
  assumes W: "W < 2 ^ 32" and r: "3 * W mod 10 \<noteq> 0"
    and y: "nearest_double (of_nat W * double_030) y"
  shows "\<lfloor>y\<rfloor> = int (3 * W div 10)"
proof -
  define N where "N = 3 * W div 10"
  define x :: rat where "x = of_nat W * double_030"
  define d :: rat where "d = of_nat W / (5 * 2 ^ 54)"
  define q :: rat where "q = of_nat (3 * W) / 10"
  have N32: "N < 2 ^ 32"
    using W by (simp add: N_def)
  have split: "3 * W = 10 * N + 3 * W mod 10"
    by (simp add: N_def)
  have "1 \<le> 3 * W mod 10" "3 * W mod 10 \<le> 9"
    using r by simp_all
  with split have lo: "10 * N + 1 \<le> 3 * W" and hi: "3 * W \<le> 10 * N + 9"
    by linarith+
  from lo have "(of_nat (10 * N + 1) :: rat) \<le> of_nat (3 * W)"
    by (simp only: of_nat_le_iff)
  then have lo': "of_nat N + 1 / 10 \<le> q"
    by (simp add: q_def)
  from hi have "(of_nat (3 * W) :: rat) \<le> of_nat (10 * N + 9)"
    by (simp only: of_nat_le_iff)
  then have hi': "q \<le> of_nat N + 9 / 10"
    by (simp add: q_def)
  have "(of_nat W :: rat) < 2 ^ 32"
    using W by (simp add: of_nat_less_numeral_power_cancel_iff)
  then have d1: "d < 1 / 10"
    by (simp add: d_def)
  have d0: "0 \<le> d"
    by (simp add: d_def)
  have xeq: "x = q - d"
    by (simp add: x_def q_def d_def product_030)
  have above: "of_nat N < x"
    using lo' d1 xeq by linarith
  have below: "x < of_nat N + 15 / 16"
    using hi' d0 xeq by linarith
  have "is_double (of_nat N)"
    using N32 by (intro is_double_of_nat) simp
  with y have "\<bar>x - y\<bar> \<le> \<bar>x - of_nat N\<bar>"
    by (simp add: nearest_double_def x_def)
  with above have ge: "of_nat N \<le> y"
    by linarith
  have "is_double (of_nat N + 15 / 16)"
    using N32 by (intro is_double_sixteenths) simp
  with y have "\<bar>x - y\<bar> \<le> \<bar>x - (of_nat N + 15 / 16)\<bar>"
    by (simp add: nearest_double_def x_def)
  with below have le: "y \<le> of_nat N + 15 / 16"
    by linarith
  have "\<lfloor>y\<rfloor> = int N"
  proof (rule floor_unique)
    show "of_int (int N) \<le> y"
      using ge by simp
    show "y < of_int (int N) + 1"
      using le by simp
  qed
  then show ?thesis
    by (simp add: N_def)
qed

text \<open>
  When \<open>3 W\<close> is a multiple of 10 the exact product lies just below the integer
  \<open>n = 3 W / 10\<close>, by \<open>d = n / (3 \<times> 2\<^sup>5\<^sup>3)\<close>; no double lies in between or as close
  on the other side, so the product rounds to \<open>n\<close>.
\<close>

lemma no_double_just_below:
  fixes n d y :: rat
  assumes N32: "N < 2 ^ 32" and n: "n = of_nat N" and dn: "d * 27021597764222976 = n"
    and y: "is_double y" and lo: "n - 2 * d \<le> y" and less: "y < n"
  shows False
proof -
  have "n < 2 ^ 32"
    using N32 by (simp add: n of_nat_less_numeral_power_cancel_iff)
  then have nlt: "n < 4294967296"
    by simp
  from less lo dn nlt have ypos: "0 < y" and near: "n - 1 < y"
    by linarith+
  from y obtain m :: int and a :: nat
    where m: "\<bar>m\<bar> < 2 ^ 53" and form: "y = of_int m * 2 ^ a \<or> y = of_int m / 2 ^ a"
    unfolding is_double_def by blast
  from form show False
  proof
    assume "y = of_int m * 2 ^ a"
    then have yint: "y = of_int (m * 2 ^ a)"
      by simp
    with less have "of_int (m * 2 ^ a) < (of_int (int N) :: rat)"
      by (simp add: n)
    then have "m * 2 ^ a < int N"
      by (simp only: of_int_less_iff)
    then have "m * 2 ^ a \<le> int N - 1"
      by simp
    then have "(of_int (m * 2 ^ a) :: rat) \<le> of_int (int N - 1)"
      by (simp only: of_int_le_iff)
    with yint have "y \<le> n - 1"
      by (simp add: n)
    with near show False
      by simp
  next
    assume yq: "y = of_int m / 2 ^ a"
    define p :: rat where "p = 2 ^ a"
    have p0: "0 < p"
      by (simp add: p_def)
    have yp: "y * p = of_int m"
      using yq by (simp add: p_def)
    from m have "m < 2 ^ 53"
      by simp
    then have "(of_int m :: rat) < of_int (2 ^ 53)"
      by (simp only: of_int_less_iff)
    with yp have yp_lt: "y * p < 9007199254740992"
      by simp
    have diff: "(n - y) * p = of_int (int N * 2 ^ a - m)"
      using yp by (simp add: n p_def algebra_simps)
    moreover have "0 < (n - y) * p"
      using less p0 by simp
    ultimately have "(0 :: rat) < of_int (int N * 2 ^ a - m)"
      by simp
    then have "0 < int N * 2 ^ a - m"
      by (simp only: of_int_0_less_iff)
    then have "1 \<le> int N * 2 ^ a - m"
      by simp
    then have "(of_int 1 :: rat) \<le> of_int (int N * 2 ^ a - m)"
      by (simp only: of_int_le_iff)
    with diff have gap: "1 \<le> (n - y) * p"
      by simp
    have "y * p < 9007199254740992 * ((n - y) * p)"
      using yp_lt gap by linarith
    then have "y * p < (9007199254740992 * (n - y)) * p"
      by (simp only: mult.assoc)
    with p0 have "y < 9007199254740992 * (n - y)"
      by (simp only: mult_less_cancel_right_pos)
    then have "9007199254740993 * y < 9007199254740992 * n"
      by (simp add: algebra_simps)
    moreover from lo have "9007199254740993 * (n - 2 * d) \<le> 9007199254740993 * y"
      by (simp only: mult_le_cancel_left_pos)
    ultimately have "n < 18014398509481986 * d"
      by (simp add: algebra_simps)
    then have "d * 27021597764222976 < 18014398509481986 * d"
      by (simp only: dn)
    then have "d < 0"
      by simp
    with dn have "n < 0"
      by (simp add: mult_neg_pos)
    with less ypos show False
      by simp
  qed
qed

lemma nearest_double_product_exact:
  assumes W: "W < 2 ^ 32" and r: "3 * W mod 10 = 0"
  shows "nearest_double (of_nat W * double_030) y \<longleftrightarrow> y = of_nat (3 * W div 10)"
proof -
  define N where "N = 3 * W div 10"
  define n :: rat where "n = of_nat N"
  define x :: rat where "x = of_nat W * double_030"
  define d :: rat where "d = of_nat W / (5 * 2 ^ 54)"
  have N32: "N < 2 ^ 32"
    using W by (simp add: N_def)
  have "3 * W = 10 * N"
    using r unfolding N_def by presburger
  then have "(of_nat (3 * W) :: rat) = of_nat (10 * N)"
    by (simp only:)
  then have W3: "3 * (of_nat W :: rat) = 10 * n"
    by (simp add: n_def)
  have xeq: "x = n - d"
    using W3 by (simp add: x_def d_def product_030)
  have dn: "d * 27021597764222976 = n"
    using W3 by (simp add: d_def)
  have d0: "0 \<le> d"
    by (simp add: d_def)
  have dbl: "is_double n"
    unfolding n_def using N32 by (intro is_double_of_nat) simp
  have "nearest_double x y \<longleftrightarrow> y = n"
  proof
    assume y: "nearest_double x y"
    with dbl have "\<bar>x - y\<bar> \<le> \<bar>x - n\<bar>"
      by (simp add: nearest_double_def)
    with xeq d0 have range: "n - 2 * d \<le> y" "y \<le> n"
      by linarith+
    show "y = n"
    proof (rule ccontr)
      assume "y \<noteq> n"
      with range have "y < n"
        by simp
      with y range(1) show False
        by (intro no_double_just_below [OF N32 n_def dn, of y]) (simp_all add: nearest_double_def)
    qed
  next
    assume y: "y = n"
    have "\<bar>x - n\<bar> \<le> \<bar>x - z\<bar>" if z: "is_double z" for z
    proof (rule ccontr)
      assume "\<not> \<bar>x - n\<bar> \<le> \<bar>x - z\<bar>"
      with xeq d0 have "n - 2 * d \<le> z" and "z < n"
        by linarith+
      with z show False
        by (intro no_double_just_below [OF N32 n_def dn, of z])
    qed
    with dbl show "nearest_double x y"
      by (simp add: nearest_double_def y)
  qed
  then show ?thesis
    by (simp add: x_def n_def N_def)
qed

text \<open>At 1920 the double product is 576 itself.\<close>

lemma nearest_double_1920: "nearest_double (of_nat 1920 * double_030) 576"
  using nearest_double_product_exact [of 1920 576] by simp

text \<open>
  The literal \<^verbatim>\<open>0.30\<close>: \<open>double_030\<close> is closer to 3/10 than every other double.
\<close>

lemma double_030_closest:
  assumes z: "is_double z" and other: "z \<noteq> double_030"
  shows "\<bar>30 / 100 - double_030\<bar> < \<bar>30 / 100 - z\<bar>"
proof (rule ccontr)
  have gap: "\<bar>30 / 100 - double_030\<bar> = 1 / 90071992547409920"
    by (simp add: double_030_def)
  assume "\<not> \<bar>30 / 100 - double_030\<bar> < \<bar>30 / 100 - z\<bar>"
  with gap have close: "\<bar>30 / 100 - z\<bar> \<le> 1 / 90071992547409920"
    by simp
  then have zlo: "1 / 4 < z" and zhi: "z < 1 / 2"
    by linarith+
  from z obtain m :: int and a :: nat
    where m: "\<bar>m\<bar> < 2 ^ 53"
      and cases: "z = of_int m * 2 ^ a \<or> z = of_int m / 2 ^ a"
    unfolding is_double_def by blast
  from cases show False
  proof
    assume "z = of_int m * 2 ^ a"
    then have zint: "z = of_int (m * 2 ^ a)"
      by simp
    with zlo have "(of_int 0 :: rat) < of_int (m * 2 ^ a)"
      by simp
    then have "0 < m * 2 ^ a"
      by (simp only: of_int_less_iff)
    then have "1 \<le> m * 2 ^ a"
      by simp
    then have "(of_int 1 :: rat) \<le> of_int (m * 2 ^ a)"
      by (simp only: of_int_le_iff)
    with zint zhi show False
      by simp
  next
    assume zq: "z = of_int m / 2 ^ a"
    define p :: rat where "p = 2 ^ a"
    have p0: "0 < p"
      by (simp add: p_def)
    have zp: "z * p = of_int m"
      using zq by (simp add: p_def)
    from m have "m < 2 ^ 53"
      by simp
    then have "(of_int m :: rat) < of_int (2 ^ 53)"
      by (simp only: of_int_less_iff)
    with zp have "z * p < 2 ^ 53"
      by simp
    moreover have "(1 / 4) * p < z * p"
      using zlo p0 by (simp only: mult_less_cancel_right_pos)
    ultimately have "p < 2 ^ 55"
      by simp
    then have "a < 55"
      unfolding p_def
      by (simp only: power_strict_increasing_iff [of "2 :: rat"] one_less_numeral_iff
          semiring_norm)
    then have split: "54 = a + (54 - a)"
      by simp
    define j :: int where "j = m * 2 ^ (54 - a)"
    have pw: "(2 :: rat) ^ 54 = p * 2 ^ (54 - a)"
      unfolding p_def by (subst split) (simp only: power_add)
    have "z * 2 ^ 54 = z * (p * 2 ^ (54 - a))"
      by (simp only: pw)
    also have "\<dots> = (z * p) * 2 ^ (54 - a)"
      by (simp only: mult.assoc)
    also have "\<dots> = of_int m * 2 ^ (54 - a)"
      by (simp only: zp)
    also have "\<dots> = of_int j"
      by (simp add: j_def)
    finally have zj: "z * 2 ^ 54 = of_int j" .
    from close have "\<bar>54043195528445952 - 180143985094819840 * z\<bar> \<le> 2"
      by linarith
    then have "\<bar>3 * 2 ^ 54 - 10 * (z * 2 ^ 54)\<bar> \<le> (2 :: rat)"
      by simp
    with zj have "\<bar>of_int (3 * 2 ^ 54 - 10 * j)\<bar> \<le> (of_int 2 :: rat)"
      by simp
    then have "\<bar>3 * 2 ^ 54 - 10 * j\<bar> \<le> 2"
      by (simp only: of_int_abs [symmetric] of_int_le_iff)
    then have "j = 5404319552844595"
      by simp
    with zj have "z * 2 ^ 54 = 5404319552844595"
      by simp
    then have "z = double_030"
      by (simp add: double_030_def field_simps)
    with other show False
      by simp
  qed
qed

lemma is_double_030: "is_double double_030"
proof -
  have "\<bar>5404319552844595 :: int\<bar> < 2 ^ 53"
    by simp
  then show ?thesis
    unfolding is_double_def double_030_def
    by (intro exI [of _ "5404319552844595 :: int"] exI [of _ "54 :: nat"]) simp
qed

lemma nearest_double_030: "nearest_double (30 / 100) c \<longleftrightarrow> c = double_030"
proof
  assume c: "nearest_double (30 / 100) c"
  show "c = double_030"
  proof (rule ccontr)
    assume "c \<noteq> double_030"
    with c have "\<bar>30 / 100 - double_030\<bar> < \<bar>30 / 100 - c\<bar>"
      by (intro double_030_closest) (simp_all add: nearest_double_def)
    moreover from c is_double_030 have "\<bar>30 / 100 - c\<bar> \<le> \<bar>30 / 100 - double_030\<bar>"
      by (simp add: nearest_double_def)
    ultimately show False
      by simp
  qed
next
  assume c: "c = double_030"
  have "\<bar>30 / 100 - double_030\<bar> \<le> \<bar>30 / 100 - z\<bar>" if "is_double z" for z
  proof (cases "z = double_030")
    case True
    then show ?thesis by simp
  next
    case False
    with that double_030_closest [of z] show ?thesis
      by simp
  qed
  with is_double_030 show "nearest_double (30 / 100) c"
    by (simp add: nearest_double_def c)
qed

lemma floor_double_product:
  assumes "W < 2 ^ 32" and "nearest_double (of_nat W * double_030) y"
  shows "\<lfloor>y\<rfloor> = int (3 * W div 10)"
proof (cases "3 * W mod 10 = 0")
  case True
  with assms have "y = of_nat (3 * W div 10)"
    by (simp add: nearest_double_product_exact)
  then show ?thesis
    by simp
next
  case False
  with assms show ?thesis
    by (intro floor_double_product_inexact)
qed

lemma is_double_thirtyseconds:
  assumes "n < 2 ^ 47"
  shows "is_double (of_nat n + 31 / 32)"
proof -
  have "\<bar>32 * int n + 31\<bar> < 2 ^ 53"
    using assms by simp
  moreover have "(of_nat n + 31 / 32 :: rat) = of_int (32 * int n + 31) / 2 ^ 5"
    by simp
  ultimately show ?thesis
    unfolding is_double_def
    by (intro exI [of _ "32 * int n + 31"] exI [of _ "5 :: nat"]) simp
qed

text \<open>
  The quotient of a width by a divisor from 1 to 32 lies between an integer and
  that integer plus 31/32, both doubles, and so does a nearest double.
\<close>

lemma floor_double_quotient:
  assumes W: "W < 2 ^ 32" and k: "0 < k" "k \<le> 32"
    and y: "nearest_double (of_nat W / of_nat k) y"
  shows "\<lfloor>y\<rfloor> = int (W div k)"
proof -
  define N where "N = W div k"
  define x :: rat where "x = of_nat W / of_nat k"
  have k0: "(0 :: rat) < of_nat k"
    using k by simp
  have N32: "N < 2 ^ 32"
    using W k unfolding N_def by (meson div_le_dividend le_less_trans)
  have "k * N \<le> W"
    by (simp add: N_def)
  then have "(of_nat (k * N) :: rat) \<le> of_nat W"
    by (simp only: of_nat_le_iff)
  then have lo: "of_nat N \<le> x"
    using k0 by (simp add: x_def field_simps)
  have "W mod k < k"
    using k by simp
  then have "W < k * N + k"
    unfolding N_def by (metis add_less_cancel_left mult_div_mod_eq)
  then have "W + 1 \<le> k * N + k"
    by simp
  then have "(of_nat (W + 1) :: rat) \<le> of_nat (k * N + k)"
    by (simp only: of_nat_le_iff)
  then have "of_nat W + 1 \<le> (of_nat N + 1) * (of_nat k :: rat)"
    by (simp add: algebra_simps)
  then have "x + 1 / of_nat k \<le> of_nat N + 1"
    using k0 by (simp add: x_def field_simps)
  moreover have "1 / 32 \<le> 1 / (of_nat k :: rat)"
  proof -
    have "(of_nat k :: rat) \<le> of_nat 32"
      using k by (simp only: of_nat_le_iff)
    with k0 show ?thesis
      by (simp add: field_simps)
  qed
  ultimately have hi: "x \<le> of_nat N + 31 / 32"
    by linarith
  have "is_double (of_nat N)"
    using N32 by (intro is_double_of_nat) simp
  with y have "\<bar>x - y\<bar> \<le> \<bar>x - of_nat N\<bar>"
    by (simp add: nearest_double_def x_def)
  with lo have ge: "of_nat N \<le> y"
    by linarith
  have "is_double (of_nat N + 31 / 32)"
    using N32 by (intro is_double_thirtyseconds) simp
  with y have "\<bar>x - y\<bar> \<le> \<bar>x - (of_nat N + 31 / 32)\<bar>"
    by (simp add: nearest_double_def x_def)
  with hi have le: "y \<le> of_nat N + 31 / 32"
    by linarith
  have "\<lfloor>y\<rfloor> = int N"
  proof (rule floor_unique)
    show "of_int (int N) \<le> y"
      using ge by simp
    show "y < of_int (int N) + 1"
      using le by simp
  qed
  then show ?thesis
    by (simp add: N_def)
qed

lemma baseFontSize_double:
  assumes "W < 2 ^ 32" and "nearest_double (of_nat W / 30) y"
  shows "of_int \<lfloor>y\<rfloor> = baseFontSize W"
proof -
  from assms(2) have "nearest_double (of_nat W / of_nat 30) y"
    by simp
  with assms(1) have "\<lfloor>y\<rfloor> = int (W div 30)"
    by (intro floor_double_quotient) simp_all
  then show ?thesis
    by (simp add: baseFontSize_div)
qed

lemma fontSize_double:
  assumes "W < 2 ^ 32" and "nearest_double (of_nat W / 25) y"
  shows "of_int \<lfloor>y\<rfloor> = fontSize W"
proof -
  from assms(2) have "nearest_double (of_nat W / of_nat 25) y"
    by simp
  with assms(1) have "\<lfloor>y\<rfloor> = int (W div 25)"
    by (intro floor_double_quotient) simp_all
  then show ?thesis
    by (simp add: fontSize_div)
qed

text \<open>
  For every width a canvas can have (an unsigned 32-bit integer), the floor of the
  double product \<^verbatim>\<open>canvas.width * 0.30\<close> is the width of the panel in the exact model.
\<close>

lemma overlayWidth_double:
  assumes "W < 2 ^ 32" and "nearest_double (30 / 100) c" and "nearest_double (of_nat W * c) y"
  shows "of_int \<lfloor>y\<rfloor> = overlayWidth W"
proof -
  from assms(2) have "c = double_030"
    by (simp only: nearest_double_030)
  with assms have "\<lfloor>y\<rfloor> = int (3 * W div 10)"
    by (intro floor_double_product) simp_all
  then show ?thesis
    by (simp only: overlayWidth_def floor_three_tenths)
qed

subsection \<open>The rounding function and the nearest double\<close>

text \<open>
  Within the range of the finite doubles, \<open>fl x\<close> is a double nearest to \<open>x\<close>; so the
  floors of the quotient and of the product as \<open>fl\<close> rounds them are the exact
  floors that define \<open>baseFontSize\<close>, \<open>fontSize\<close> and \<open>overlayWidth\<close>.
\<close>

lemma is_double_rep53: "is_double z \<Longrightarrow> rep53 z"
  unfolding is_double_def rep53_def by blast

lemma round53_significand:
  "0 < x \<Longrightarrow> x < 2 ^ 53 \<Longrightarrow> 2 ^ 52 \<le> x * 2 ^ j \<Longrightarrow>
   \<exists>(m :: int) (a :: nat). a \<le> j \<and> 0 \<le> m \<and> m \<le> 2 ^ 53 \<and> round53 x = of_int m / 2 ^ a"
proof (induction j arbitrary: x)
  case 0
  then have large: "2 ^ 52 \<le> x"
    by simp
  with 0 have r: "round53 x = of_int (rne x)"
    by (subst round53.simps) simp
  from 0 have "\<lfloor>x\<rfloor> < 2 ^ 53"
    by (simp add: floor_less_iff)
  moreover from 0 have "0 \<le> \<lfloor>x\<rfloor>"
    by simp
  ultimately have "0 \<le> rne x" and "rne x \<le> 2 ^ 53"
    using rne_floor_or_next [of x] by auto
  with r show ?case
    by (intro exI [of _ "rne x"] exI [of _ "0 :: nat"]) simp
next
  case (Suc j)
  show ?case
  proof (cases "2 ^ 52 \<le> x")
    case True
    with Suc.prems have r: "round53 x = of_int (rne x)"
      by (subst round53.simps) simp
    from Suc.prems have "\<lfloor>x\<rfloor> < 2 ^ 53"
      by (simp add: floor_less_iff)
    moreover from Suc.prems have "0 \<le> \<lfloor>x\<rfloor>"
      by simp
    ultimately have "0 \<le> rne x" and "rne x \<le> 2 ^ 53"
      using rne_floor_or_next [of x] by auto
    with r show ?thesis
      by (intro exI [of _ "rne x"] exI [of _ "0 :: nat"]) simp
  next
    case False
    with Suc.prems have r: "round53 x = round53 (2 * x) / 2"
      by (subst round53.simps) simp
    from False Suc.prems have "0 < 2 * x" and "2 * x < 2 ^ 53" and "2 ^ 52 \<le> 2 * x * 2 ^ j"
      by (simp_all add: mult.commute mult.left_commute)
    then obtain m :: int and a :: nat
      where "a \<le> j" and "0 \<le> m" and "m \<le> 2 ^ 53" and "round53 (2 * x) = of_int m / 2 ^ a"
      using Suc.IH [of "2 * x"] by blast
    with r show ?thesis
      by (intro exI [of _ m] exI [of _ "Suc a"]) simp
  qed
qed

lemma is_double_significand:
  assumes a: "a \<le> 1074" and m0: "0 \<le> m" and m: "m \<le> 2 ^ 53"
  shows "is_double (of_int m / 2 ^ a)"
proof (cases "m = 2 ^ 53")
  case False
  with m0 m have "\<bar>m\<bar> < 2 ^ 53"
    by simp
  with a show ?thesis
    unfolding is_double_def by blast
next
  case top: True
  have half: "\<bar>2 ^ 52 :: int\<bar> < 2 ^ 53"
    by simp
  show ?thesis
  proof (cases "a = 0")
    case True
    have "(of_int m / 2 ^ a :: rat) = of_int (2 ^ 52) * 2 ^ 1"
      by (simp add: top True)
    moreover have "(1 :: nat) \<le> 971"
      by simp
    ultimately show ?thesis
      unfolding is_double_def using half by blast
  next
    case False
    then obtain n where n: "a = Suc n"
      by (cases a) auto
    have "(of_int m / 2 ^ a :: rat) = of_int (2 ^ 52) / 2 ^ n"
      by (simp add: top n)
    moreover have "n \<le> 1074"
      using a n by simp
    ultimately show ?thesis
      unfolding is_double_def using half by blast
  qed
qed

lemma is_double_neg: "is_double y \<Longrightarrow> is_double (- y)"
proof -
  assume "is_double y"
  then obtain m :: int and a :: nat
    where m: "\<bar>m\<bar> < 2 ^ 53"
      and y: "(a \<le> 971 \<and> y = of_int m * 2 ^ a) \<or> (a \<le> 1074 \<and> y = of_int m / 2 ^ a)"
    unfolding is_double_def by blast
  from m have "\<bar>- m\<bar> < 2 ^ 53"
    by simp
  moreover from y have "(a \<le> 971 \<and> - y = of_int (- m) * 2 ^ a)
      \<or> (a \<le> 1074 \<and> - y = of_int (- m) / 2 ^ a)"
    by auto
  ultimately show ?thesis
    unfolding is_double_def by blast
qed

lemma is_double_zero: "is_double 0"
proof -
  have "\<bar>0 :: int\<bar> < 2 ^ 53" and "(0 :: nat) \<le> 971" and "(0 :: rat) = of_int 0 * 2 ^ 0"
    by simp_all
  then show ?thesis
    unfolding is_double_def by blast
qed

lemma is_double_round53:
  assumes "0 < x" and "x < 2 ^ 53" and "2 ^ 52 \<le> x * 2 ^ j" and "j \<le> 1074"
  shows "is_double (round53 x)"
proof -
  from assms(1-3) obtain m :: int and a :: nat
    where "a \<le> j" and "0 \<le> m" and "m \<le> 2 ^ 53" and r: "round53 x = of_int m / 2 ^ a"
    using round53_significand [of x j] by blast
  with assms(4) have "is_double (of_int m / 2 ^ a)"
    by (intro is_double_significand) simp_all
  with r show ?thesis
    by simp
qed

lemma is_double_fl:
  assumes "\<bar>x\<bar> < 2 ^ 53" and "x = 0 \<or> 2 ^ 52 \<le> \<bar>x\<bar> * 2 ^ j" and "j \<le> 1074"
  shows "is_double (fl x)"
proof -
  consider "0 < x" | "x = 0" | "x < 0"
    by linarith
  then show ?thesis
  proof cases
    assume pos: "0 < x"
    with assms have "is_double (round53 x)"
      by (intro is_double_round53 [of x j]) simp_all
    with pos show ?thesis
      by (simp add: fl_def)
  next
    assume "x = 0"
    then show ?thesis
      by (simp add: fl_def round53.simps is_double_zero)
  next
    assume neg: "x < 0"
    with assms have "is_double (round53 (- x))"
      by (intro is_double_round53 [of "- x" j]) simp_all
    then have "is_double (- round53 (- x))"
      by (rule is_double_neg)
    with neg show ?thesis
      by (simp add: fl_def)
  qed
qed

lemma nearest_double_fl:
  assumes "\<bar>x\<bar> < 2 ^ 53" and "x = 0 \<or> 2 ^ 52 \<le> \<bar>x\<bar> * 2 ^ j" and "j \<le> 1074"
  shows "nearest_double x (fl x)"
proof -
  from assms have "is_double (fl x)"
    by (rule is_double_fl)
  moreover have "\<bar>x - fl x\<bar> \<le> \<bar>x - z\<bar>" if "is_double z" for z
  proof -
    from that have "rep53 z"
      by (rule is_double_rep53)
    then have "\<bar>fl x - x\<bar> \<le> \<bar>z - x\<bar>"
      by (rule fl_nearest)
    then show ?thesis
      by (simp only: abs_minus_commute)
  qed
  ultimately show ?thesis
    by (simp add: nearest_double_def)
qed

lemma nearest_double_fl_moderate:
  assumes "x = 0 \<or> 1 / 32 \<le> x" and "x < 2 ^ 53"
  shows "nearest_double x (fl x)"
proof (rule nearest_double_fl [of x 57])
  show "\<bar>x\<bar> < 2 ^ 53"
    using assms by auto
  show "x = 0 \<or> 2 ^ 52 \<le> \<bar>x\<bar> * 2 ^ 57"
    using assms by auto
  show "(57 :: nat) \<le> 1074"
    by simp
qed

lemma baseFontSize_fl:
  assumes "W < 2 ^ 32"
  shows "of_int \<lfloor>js_div (of_nat W) 30\<rfloor> = baseFontSize W"
proof -
  have "(of_nat W :: rat) < 2 ^ 32"
    using assms by (simp add: of_nat_less_numeral_power_cancel_iff)
  then have "(of_nat W / 30 :: rat) < 2 ^ 53"
    by simp
  moreover have "(of_nat W / 30 :: rat) = 0 \<or> 1 / 32 \<le> (of_nat W / 30 :: rat)"
  proof (cases "W = 0")
    case False
    then have "(1 :: rat) \<le> of_nat W"
      by simp
    then have "1 / 32 \<le> (of_nat W / 30 :: rat)"
      by linarith
    then show ?thesis
      by (rule disjI2)
  qed simp
  ultimately have "nearest_double (of_nat W / 30) (fl (of_nat W / 30))"
    by (intro nearest_double_fl_moderate)
  with assms show ?thesis
    unfolding js_div_def by (rule baseFontSize_double)
qed

lemma fontSize_fl:
  assumes "W < 2 ^ 32"
  shows "of_int \<lfloor>js_div (of_nat W) 25\<rfloor> = fontSize W"
proof -
  have "(of_nat W :: rat) < 2 ^ 32"
    using assms by (simp add: of_nat_less_numeral_power_cancel_iff)
  then have "(of_nat W / 25 :: rat) < 2 ^ 53"
    by simp
  moreover have "(of_nat W / 25 :: rat) = 0 \<or> 1 / 32 \<le> (of_nat W / 25 :: rat)"
  proof (cases "W = 0")
    case False
    then have "(1 :: rat) \<le> of_nat W"
      by simp
    then have "1 / 32 \<le> (of_nat W / 25 :: rat)"
      by linarith
    then show ?thesis
      by (rule disjI2)
  qed simp
  ultimately have "nearest_double (of_nat W / 25) (fl (of_nat W / 25))"
    by (intro nearest_double_fl_moderate)
  with assms show ?thesis
    unfolding js_div_def by (rule fontSize_double)
qed

lemma literal_030: "fl (3 / 10) = 5404319552844595 / 18014398509481984"
  by (simp add: fl_def round53.simps rne_def floor_rat_numeral Let_def)

lemma overlayWidth_fl:
  assumes "W < 2 ^ 32"
  shows "of_int \<lfloor>js_mul (of_nat W) (fl (30 / 100))\<rfloor> = overlayWidth W"
proof -
  define x :: rat where "x = of_nat W * fl (30 / 100)"
  have literal: "nearest_double (30 / 100) (fl (30 / 100))"
    by (intro nearest_double_fl_moderate) simp_all
  have x: "x = of_nat W * (5404319552844595 / 18014398509481984)"
    by (simp add: x_def literal_030)
  have "(of_nat W :: rat) < 2 ^ 32"
    using assms by (simp add: of_nat_less_numeral_power_cancel_iff)
  then have "x < 2 ^ 53"
    by (simp add: x)
  moreover have "x = 0 \<or> 1 / 32 \<le> x"
  proof (cases "W = 0")
    case False
    then have "(1 :: rat) \<le> of_nat W"
      by simp
    then show ?thesis
      by (simp add: x)
  qed (simp add: x)
  ultimately have "nearest_double x (fl x)"
    by (intro nearest_double_fl_moderate)
  then have "nearest_double (of_nat W * fl (30 / 100)) (js_mul (of_nat W) (fl (30 / 100)))"
    by (simp only: x_def js_mul_def)
  with assms literal show ?thesis
    by (rule overlayWidth_double)
qed

subsection \<open>A frame without pixels\<close>

lemma texts_append: "texts (xs @ ys) = texts xs @ texts ys"
  by (induction xs rule: texts.induct) simp_all

text \<open>
  Claim C3, as stated, on the page before any stream is ready (a frame of 0\<times>0): in
  both revisions \<^verbatim>\<open>capturePhoto\<close> resizes the canvas, issues the blit, draws the band
  and the five lines of the overlay and requests the export.
\<close>

theorem capturePhoto_zero_frame_counterexample:
  "videoWidth initial_page = 0 \<and> videoHeight initial_page = 0
   \<and> fst (capturePhoto initial_page) =
       [SetCanvasWidth 0, SetCanvasHeight 0, DrawImage 0 0 0 0,
        SetFillStyle (Colour ''rgba(0, 0, 0, 0.7)''), FillRect 0 0 0 0,
        SetFillStyle (Colour ''white''), SetTextAlign ''left'', SetFont 700 0,
        FillText ''GPS Cam by solvepao research'' 0 0, SetFont 500 0,
        FillText ''Coordinates: '' 0 0, FillText ''Altitude: '' 0 0,
        FillText ''Accuracy: '' 0 0, FillText ''Date & Time: '' 0 0,
        ToBlob ''image/jpeg'' (95 / 100)]
   \<and> fst (capturePhoto_script initial_page) =
       [SetCanvasWidth 0, SetCanvasHeight 0, DrawImage 0 0 0 0, SetFont 600 0,
        SetFillStyle (Colour ''rgba(0, 0, 0, 0.7)''), FillRect 0 0 0 0,
        SetFillStyle (Colour ''white''), SetTextAlign ''left'', SetFont 700 0,
        FillText ''SolvePao Research'' 0 0, SetFont 500 0,
        FillText ''Coordinates: '' 0 0, FillText ''Altitude: '' 0 0,
        FillText ''Accuracy: '' 0 0, FillText ''Date & Time: '' 0 0,
        ToBlob ''image/jpeg'' (95 / 100)]"
  by (simp add: capturePhoto_def capturePhoto_script_def portrait_layout_def fontSize_def
      initial_page_def Let_def js_mul_zero js_add_zero)

lemma save_action_no_pixels:
  "videoWidth p = 0 \<or> videoHeight p = 0 \<Longrightarrow> save_action now (capturePhoto p) = Inl TypeError"
  by (auto simp: save_action_def capturePhoto_def html_toBlob_def toBlob_callback_def Let_def)

lemma save_action_script_no_pixels:
  "videoWidth p = 0 \<or> videoHeight p = 0 \<Longrightarrow>
   save_action now (capturePhoto_script p) = Inl TypeError"
  by (auto simp: save_action_def capturePhoto_script_def html_toBlob_def toBlob_callback_def
      Let_def)

text \<open>
  Claim C3, amended. \<^verbatim>\<open>capturePhoto\<close> has no test of the frame's dimensions: when the
  frame has zero width or zero height it is not a no-op and does not fail fast.
  In both revisions it resizes the canvas to the frame, issues the blit, issues
  every call of the overlay (in the newer revision those of the layout that
  \<^verbatim>\<open>width > height\<close> selects: the portrait layout when the width is zero, the landscape
  layout when only the height is zero) and requests the export. No file is saved,
  for one reason only: the browser hands \<^verbatim>\<open>null\<close> to the callback for a canvas without
  pixels, and the callback throws a \<^verbatim>\<open>TypeError\<close> at \<^verbatim>\<open>URL.createObjectURL\<close>; handed a blob,
  the callback saves the file.
\<close>

theorem capturePhoto_zero_frame:
  "videoWidth p = 0 \<or> videoHeight p = 0 \<Longrightarrow>
   fst (capturePhoto p) =
     [SetCanvasWidth (videoWidth p), SetCanvasHeight (videoHeight p),
      DrawImage 0 0 (of_nat (videoWidth p)) (of_nat (videoHeight p))]
     @ (if videoWidth p > videoHeight p
        then landscape_layout (videoWidth p) (videoHeight p) (baseFontSize (videoWidth p))
               (coordinatesText p) (altitudeText p) (accuracyText p) (datetimeText p)
        else portrait_layout ''GPS Cam by solvepao research'' (videoWidth p)
               (coordinatesText p) (altitudeText p) (accuracyText p) (datetimeText p))
     @ [ToBlob ''image/jpeg'' (95 / 100)]
   \<and> fst (capturePhoto_script p) =
     [SetCanvasWidth (videoWidth p), SetCanvasHeight (videoHeight p),
      DrawImage 0 0 (of_nat (videoWidth p)) (of_nat (videoHeight p)),
      SetFont 600 (fontSize (videoWidth p))]
     @ portrait_layout ''SolvePao Research'' (videoWidth p)
         (coordinatesText p) (altitudeText p) (accuracyText p) (datetimeText p)
     @ [ToBlob ''image/jpeg'' (95 / 100)]
   \<and> save_action now (capturePhoto p) = Inl TypeError
   \<and> save_action now (capturePhoto_script p) = Inl TypeError
   \<and> toBlob_callback now None = Inl TypeError
   \<and> toBlob_callback now (Some b) =
       Inr [CreateObjectURL b, CreateAnchor, SetHref b, SetDownload (download_name now),
            Click, RevokeObjectURL b]"
proof -
  assume zero: "videoWidth p = 0 \<or> videoHeight p = 0"
  have "fst (capturePhoto p) =
     [SetCanvasWidth (videoWidth p), SetCanvasHeight (videoHeight p),
      DrawImage 0 0 (of_nat (videoWidth p)) (of_nat (videoHeight p))]
     @ (if videoWidth p > videoHeight p
        then landscape_layout (videoWidth p) (videoHeight p) (baseFontSize (videoWidth p))
               (coordinatesText p) (altitudeText p) (accuracyText p) (datetimeText p)
        else portrait_layout ''GPS Cam by solvepao research'' (videoWidth p)
               (coordinatesText p) (altitudeText p) (accuracyText p) (datetimeText p))
     @ [ToBlob ''image/jpeg'' (95 / 100)]"
    by (simp add: capturePhoto_def Let_def)
  moreover have "fst (capturePhoto_script p) =
     [SetCanvasWidth (videoWidth p), SetCanvasHeight (videoHeight p),
      DrawImage 0 0 (of_nat (videoWidth p)) (of_nat (videoHeight p)),
      SetFont 600 (fontSize (videoWidth p))]
     @ portrait_layout ''SolvePao Research'' (videoWidth p)
         (coordinatesText p) (altitudeText p) (accuracyText p) (datetimeText p)
     @ [ToBlob ''image/jpeg'' (95 / 100)]"
    by (simp add: capturePhoto_script_def Let_def)
  moreover from zero have "save_action now (capturePhoto p) = Inl TypeError"
    by (rule save_action_no_pixels)
  moreover from zero have "save_action now (capturePhoto_script p) = Inl TypeError"
    by (rule save_action_script_no_pixels)
  moreover have "toBlob_callback now None = Inl TypeError"
    by (simp add: toBlob_callback_def)
  moreover have "toBlob_callback now (Some b) =
       Inr [CreateObjectURL b, CreateAnchor, SetHref b, SetDownload (download_name now),
            Click, RevokeObjectURL b]"
    by (simp add: toBlob_callback_def)
  ultimately show ?thesis
    by (intro conjI)
qed

text \<open>
  At 0\<times>0 the portrait layout is drawn, at 1920\<times>0 the landscape layout; in both
  cases the callback throws.
\<close>

theorem capturePhoto_zero_frame_witness:
  "(videoWidth initial_page = 0 \<or> videoHeight initial_page = 0)
   \<and> (videoWidth flat_page = 0 \<or> videoHeight flat_page = 0)
   \<and> fst (capturePhoto initial_page) =
       [SetCanvasWidth 0, SetCanvasHeight 0, DrawImage 0 0 0 0]
       @ portrait_layout ''GPS Cam by solvepao research'' 0 [] [] [] []
       @ [ToBlob ''image/jpeg'' (95 / 100)]
   \<and> fst (capturePhoto flat_page) =
       [SetCanvasWidth 1920, SetCanvasHeight 0, DrawImage 0 0 1920 0]
       @ landscape_layout 1920 0 (baseFontSize 1920) [] [] [] []
       @ [ToBlob ''image/jpeg'' (95 / 100)]
   \<and> save_action 0 (capturePhoto initial_page) = Inl TypeError
   \<and> save_action 0 (capturePhoto flat_page) = Inl TypeError
   \<and> save_action 0 (capturePhoto_script initial_page) = Inl TypeError"
proof -
  have z: "videoWidth initial_page = 0 \<or> videoHeight initial_page = 0"
    by (simp add: initial_page_def)
  have f: "videoWidth flat_page = 0 \<or> videoHeight flat_page = 0"
    by (simp add: flat_page_def initial_page_def)
  have fields:
    "videoWidth initial_page = 0" "videoHeight initial_page = 0"
    "videoWidth flat_page = 1920" "videoHeight flat_page = 0"
    "coordinatesText initial_page = []" "altitudeText initial_page = []"
    "accuracyText initial_page = []" "datetimeText initial_page = []"
    "coordinatesText flat_page = []" "altitudeText flat_page = []"
    "accuracyText flat_page = []" "datetimeText flat_page = []"
    by (simp_all add: flat_page_def initial_page_def)
  from z f capturePhoto_zero_frame [OF z, of 0] capturePhoto_zero_frame [OF f, of 0]
  show ?thesis
    by (simp add: fields)
qed

subsection \<open>Two captures in a row\<close>

lemma digit_value: "d < 10 \<Longrightarrow> of_char (''0123456789'' ! d) = (48 + d :: nat)"
proof -
  assume "d < 10"
  then have "d \<in> {0, 1, 2, 3, 4, 5, 6, 7, 8, 9}"
    by auto
  then show ?thesis
    by auto
qed

lemma undecimal_decimal: "undecimal (decimal n) = n"
proof (induction n rule: decimal.induct)
  case (1 n)
  show ?case
  proof (cases "n < 10")
    case True
    then show ?thesis
      by (simp add: decimal.simps [of n] undecimal_def digit_value)
  next
    case False
    with 1 have "undecimal (decimal (n div 10)) = n div 10"
      by simp
    with False show ?thesis
      by (simp add: decimal.simps [of n] undecimal_def digit_value)
  qed
qed

lemma decimal_inject: "decimal m = decimal n \<longleftrightarrow> m = n"
  by (metis undecimal_decimal)

lemma decimal_digits: "set (decimal n) \<subseteq> set ''0123456789''"
proof (induction n rule: decimal.induct)
  case (1 n)
  have member: "''0123456789'' ! d \<in> set ''0123456789''" if "d < 10" for d
    using that by (intro nth_mem) simp
  show ?case
  proof (cases "n < 10")
    case True
    with member [of n] show ?thesis
      by (simp add: decimal.simps [of n])
  next
    case False
    with 1 have "set (decimal (n div 10)) \<subseteq> set ''0123456789''"
      by simp
    with False member [of "n mod 10"] show ?thesis
      by (simp add: decimal.simps [of n])
  qed
qed

lemma decimal_not_Nil: "decimal n \<noteq> []"
  by (subst decimal.simps) simp

lemma decimal_no_minus: "decimal n \<noteq> CHR ''-'' # cs"
proof
  assume "decimal n = CHR ''-'' # cs"
  then have "CHR ''-'' \<in> set (decimal n)"
    by simp
  with decimal_digits [of n] show False
    by auto
qed

lemma download_name_inject: "download_name s = download_name t \<longleftrightarrow> s = t"
proof
  assume eq: "download_name s = download_name t"
  show "s = t"
  proof (cases "s < 0"; cases "t < 0")
    assume "s < 0" "t < 0"
    with eq have "decimal (nat \<bar>s\<bar>) = decimal (nat \<bar>t\<bar>)"
      by (simp add: download_name_def)
    then have "nat \<bar>s\<bar> = nat \<bar>t\<bar>"
      by (simp add: decimal_inject)
    with \<open>s < 0\<close> \<open>t < 0\<close> show ?thesis by simp
  next
    assume "s < 0" "\<not> t < 0"
    with eq have "CHR ''-'' # decimal (nat \<bar>s\<bar>) @ ''.jpg'' = decimal (nat \<bar>t\<bar>) @ ''.jpg''"
      by (simp add: download_name_def)
    then have "decimal (nat \<bar>t\<bar>) = CHR ''-'' # decimal (nat \<bar>s\<bar>)"
      by simp
    then show ?thesis
      by (simp add: decimal_no_minus)
  next
    assume "\<not> s < 0" "t < 0"
    with eq have "decimal (nat \<bar>s\<bar>) @ ''.jpg'' = CHR ''-'' # decimal (nat \<bar>t\<bar>) @ ''.jpg''"
      by (simp add: download_name_def)
    then have "decimal (nat \<bar>s\<bar>) = CHR ''-'' # decimal (nat \<bar>t\<bar>)"
      by simp
    then show ?thesis
      by (simp add: decimal_no_minus)
  next
    assume "\<not> s < 0" "\<not> t < 0"
    with eq have "decimal (nat \<bar>s\<bar>) = decimal (nat \<bar>t\<bar>)"
      by (simp add: download_name_def)
    then have "nat \<bar>s\<bar> = nat \<bar>t\<bar>"
      by (simp add: decimal_inject)
    with \<open>\<not> s < 0\<close> \<open>\<not> t < 0\<close> show ?thesis by simp
  qed
qed simp

lemma download_name_example: "download_name 1700000000000 = ''solvepao_1700000000000.jpg''"
  by (simp add: download_name_def decimal.simps)

lemma download_name_next: "download_name 1700000000001 = ''solvepao_1700000000001.jpg''"
  by (simp add: download_name_def decimal.simps)

lemma texts_landscape:
  "texts (landscape_layout w h b c a r d) =
     [''GPS Cam by solvepao research'', ''Coordinates'', c, ''Altitude'', a,
      ''Accuracy'', r, ''Date & Time'', d]"
  by (simp add: landscape_layout_def drawInfoRow_def Let_def)

lemma texts_portrait:
  "texts (portrait_layout brand w c a r d) =
     [brand, ''Coordinates: '' @ c, ''Altitude: '' @ a, ''Accuracy: '' @ r,
      ''Date & Time: '' @ d]"
  by (simp add: portrait_layout_def Let_def)

lemma save_action_pixels:
  assumes "0 < videoWidth p" and "0 < videoHeight p"
  shows "save_action now (capturePhoto p) =
     Inr [CreateObjectURL (Blob (butlast (fst (capturePhoto p))) ''image/jpeg'' (95 / 100)),
          CreateAnchor,
          SetHref (Blob (butlast (fst (capturePhoto p))) ''image/jpeg'' (95 / 100)),
          SetDownload (download_name now),
          Click,
          RevokeObjectURL (Blob (butlast (fst (capturePhoto p))) ''image/jpeg'' (95 / 100))]"
  using assms
  by (simp add: save_action_def capturePhoto_def html_toBlob_def toBlob_callback_def Let_def
      butlast_append)

lemma capturePhoto_again:
  "fst (capturePhoto (snd (capturePhoto p))) = fst (capturePhoto p)"
  "videoWidth (snd (capturePhoto p)) = videoWidth p"
  "videoHeight (snd (capturePhoto p)) = videoHeight p"
  by (simp_all add: capturePhoto_def Let_def)

text \<open>
  Claim C7. For a frame with pixels: a second \<^verbatim>\<open>capturePhoto\<close>, run on the page the
  first one leaves, issues exactly the calls of the first, which are the resize,
  the blit, the calls of the layout and the export request, with the header and
  the four display strings as the texts drawn. Each capture saves one file, and
  the two save actions hold blobs of the same description (what those calls paint,
  as JPEG of quality 0.95) and differ in nothing but the name, which is made of the
  time of its callback; two names are equal only for equal times.
\<close>

theorem capturePhoto_twice:
  "0 < videoWidth p \<Longrightarrow> 0 < videoHeight p \<Longrightarrow>
   fst (capturePhoto (snd (capturePhoto p))) = fst (capturePhoto p)
   \<and> fst (capturePhoto p) =
       [SetCanvasWidth (videoWidth p), SetCanvasHeight (videoHeight p),
        DrawImage 0 0 (of_nat (videoWidth p)) (of_nat (videoHeight p))]
       @ (if videoWidth p > videoHeight p
          then landscape_layout (videoWidth p) (videoHeight p) (baseFontSize (videoWidth p))
                 (coordinatesText p) (altitudeText p) (accuracyText p) (datetimeText p)
          else portrait_layout ''GPS Cam by solvepao research'' (videoWidth p)
                 (coordinatesText p) (altitudeText p) (accuracyText p) (datetimeText p))
       @ [ToBlob ''image/jpeg'' (95 / 100)]
   \<and> texts (fst (capturePhoto p)) =
       (if videoWidth p > videoHeight p
        then [''GPS Cam by solvepao research'', ''Coordinates'', coordinatesText p,
              ''Altitude'', altitudeText p, ''Accuracy'', accuracyText p,
              ''Date & Time'', datetimeText p]
        else [''GPS Cam by solvepao research'', ''Coordinates: '' @ coordinatesText p,
              ''Altitude: '' @ altitudeText p, ''Accuracy: '' @ accuracyText p,
              ''Date & Time: '' @ datetimeText p])
   \<and> save_action s (capturePhoto p) =
       Inr [CreateObjectURL (Blob (butlast (fst (capturePhoto p))) ''image/jpeg'' (95 / 100)),
            CreateAnchor,
            SetHref (Blob (butlast (fst (capturePhoto p))) ''image/jpeg'' (95 / 100)),
            SetDownload (download_name s),
            Click,
            RevokeObjectURL (Blob (butlast (fst (capturePhoto p))) ''image/jpeg'' (95 / 100))]
   \<and> save_action t (capturePhoto (snd (capturePhoto p))) =
       Inr [CreateObjectURL (Blob (butlast (fst (capturePhoto p))) ''image/jpeg'' (95 / 100)),
            CreateAnchor,
            SetHref (Blob (butlast (fst (capturePhoto p))) ''image/jpeg'' (95 / 100)),
            SetDownload (download_name t),
            Click,
            RevokeObjectURL (Blob (butlast (fst (capturePhoto p))) ''image/jpeg'' (95 / 100))]
   \<and> (download_name s = download_name t \<longleftrightarrow> s = t)"
proof -
  assume w: "0 < videoWidth p" and h: "0 < videoHeight p"
  have again: "fst (capturePhoto (snd (capturePhoto p))) = fst (capturePhoto p)"
    by (rule capturePhoto_again)
  have calls: "fst (capturePhoto p) =
       [SetCanvasWidth (videoWidth p), SetCanvasHeight (videoHeight p),
        DrawImage 0 0 (of_nat (videoWidth p)) (of_nat (videoHeight p))]
       @ (if videoWidth p > videoHeight p
          then landscape_layout (videoWidth p) (videoHeight p) (baseFontSize (videoWidth p))
                 (coordinatesText p) (altitudeText p) (accuracyText p) (datetimeText p)
          else portrait_layout ''GPS Cam by solvepao research'' (videoWidth p)
                 (coordinatesText p) (altitudeText p) (accuracyText p) (datetimeText p))
       @ [ToBlob ''image/jpeg'' (95 / 100)]"
    by (simp add: capturePhoto_def Let_def)
  have drawn: "texts (fst (capturePhoto p)) =
       (if videoWidth p > videoHeight p
        then [''GPS Cam by solvepao research'', ''Coordinates'', coordinatesText p,
              ''Altitude'', altitudeText p, ''Accuracy'', accuracyText p,
              ''Date & Time'', datetimeText p]
        else [''GPS Cam by solvepao research'', ''Coordinates: '' @ coordinatesText p,
              ''Altitude: '' @ altitudeText p, ''Accuracy: '' @ accuracyText p,
              ''Date & Time: '' @ datetimeText p])"
    by (simp add: capturePhoto_def Let_def texts_append texts_landscape texts_portrait)
  note first = save_action_pixels [OF w h, of s]
  have "0 < videoWidth (snd (capturePhoto p))" and "0 < videoHeight (snd (capturePhoto p))"
    using w h by (simp_all only: capturePhoto_again)
  then have second: "save_action t (capturePhoto (snd (capturePhoto p))) =
       Inr [CreateObjectURL (Blob (butlast (fst (capturePhoto p))) ''image/jpeg'' (95 / 100)),
            CreateAnchor,
            SetHref (Blob (butlast (fst (capturePhoto p))) ''image/jpeg'' (95 / 100)),
            SetDownload (download_name t),
            Click,
            RevokeObjectURL (Blob (butlast (fst (capturePhoto p))) ''image/jpeg'' (95 / 100))]"
    using save_action_pixels [of "snd (capturePhoto p)" t] by (simp only: again)
  note names = download_name_inject [of s t]
  from again calls drawn first second names show ?thesis
    by (intro conjI)
qed

text \<open>
  At 1920\<times>1080, with the callbacks one millisecond apart: the same description,
  saved under two names.
\<close>

theorem capturePhoto_twice_witness:
  "0 < videoWidth landscape_page \<and> 0 < videoHeight landscape_page
   \<and> fst (capturePhoto (snd (capturePhoto landscape_page))) = fst (capturePhoto landscape_page)
   \<and> texts (fst (capturePhoto landscape_page)) =
       [''GPS Cam by solvepao research'', ''Coordinates'', [], ''Altitude'', [],
        ''Accuracy'', [], ''Date & Time'', []]
   \<and> save_action 1700000000000 (capturePhoto landscape_page) =
       Inr [CreateObjectURL
              (Blob (butlast (fst (capturePhoto landscape_page))) ''image/jpeg'' (95 / 100)),
            CreateAnchor,
            SetHref (Blob (butlast (fst (capturePhoto landscape_page))) ''image/jpeg'' (95 / 100)),
            SetDownload ''solvepao_1700000000000.jpg'',
            Click,
            RevokeObjectURL
              (Blob (butlast (fst (capturePhoto landscape_page))) ''image/jpeg'' (95 / 100))]
   \<and> save_action 1700000000001 (capturePhoto (snd (capturePhoto landscape_page))) =
       Inr [CreateObjectURL
              (Blob (butlast (fst (capturePhoto landscape_page))) ''image/jpeg'' (95 / 100)),
            CreateAnchor,
            SetHref (Blob (butlast (fst (capturePhoto landscape_page))) ''image/jpeg'' (95 / 100)),
            SetDownload ''solvepao_1700000000001.jpg'',
            Click,
            RevokeObjectURL
              (Blob (butlast (fst (capturePhoto landscape_page))) ''image/jpeg'' (95 / 100))]"
proof -
  have w: "0 < videoWidth landscape_page" and h: "0 < videoHeight landscape_page"
    by (simp_all add: landscape_page_def initial_page_def)
  have fields:
    "videoWidth landscape_page > videoHeight landscape_page"
    "coordinatesText landscape_page = []" "altitudeText landscape_page = []"
    "accuracyText landscape_page = []" "datetimeText landscape_page = []"
    by (simp_all add: landscape_page_def initial_page_def)
  note twice = capturePhoto_twice [OF w h, of 1700000000000 1700000000001]
  have again:
    "fst (capturePhoto (snd (capturePhoto landscape_page))) = fst (capturePhoto landscape_page)"
    by (rule twice [THEN conjunct1])
  have drawn: "texts (fst (capturePhoto landscape_page)) =
       [''GPS Cam by solvepao research'', ''Coordinates'', [], ''Altitude'', [],
        ''Accuracy'', [], ''Date & Time'', []]"
    using twice [THEN conjunct2, THEN conjunct2, THEN conjunct1]
    by (simp only: fields if_True)
  have first: "save_action 1700000000000 (capturePhoto landscape_page) =
       Inr [CreateObjectURL
              (Blob (butlast (fst (capturePhoto landscape_page))) ''image/jpeg'' (95 / 100)),
            CreateAnchor,
            SetHref (Blob (butlast (fst (capturePhoto landscape_page))) ''image/jpeg'' (95 / 100)),
            SetDownload ''solvepao_1700000000000.jpg'',
            Click,
            RevokeObjectURL
              (Blob (butlast (fst (capturePhoto landscape_page))) ''image/jpeg'' (95 / 100))]"
    using twice [THEN conjunct2, THEN conjunct2, THEN conjunct2, THEN conjunct1]
    by (simp only: download_name_example)
  have second: "save_action 1700000000001 (capturePhoto (snd (capturePhoto landscape_page))) =
       Inr [CreateObjectURL
              (Blob (butlast (fst (capturePhoto landscape_page))) ''image/jpeg'' (95 / 100)),
            CreateAnchor,
            SetHref (Blob (butlast (fst (capturePhoto landscape_page))) ''image/jpeg'' (95 / 100)),
            SetDownload ''solvepao_1700000000001.jpg'',
            Click,
            RevokeObjectURL
              (Blob (butlast (fst (capturePhoto landscape_page))) ''image/jpeg'' (95 / 100))]"
    using twice [THEN conjunct2, THEN conjunct2, THEN conjunct2, THEN conjunct2, THEN conjunct1]
    by (simp only: download_name_next)
  from w h again drawn first second show ?thesis
    by (intro conjI)
qed

subsection \<open>Failure of the camera\<close>

text \<open>
  Claim C8. When \<^verbatim>\<open>getUserMedia\<close> rejects with any error, \<^verbatim>\<open>startCamera\<close> logs it, makes
  the prompt visible and throws the same error again; \<^verbatim>\<open>init\<close> catches it, logs it
  once more and shows the prompt, and starts neither the location watch nor the
  clock; through \<^verbatim>\<open>toggleCamera\<close> the error passes to the caller with the prompt shown.
\<close>

theorem camera_failure_surfaces:
  "fst (startCamera (Rejected e) p) = Inl e
   \<and> permissionDisplay (snd (startCamera (Rejected e) p)) = ''flex''
   \<and> calls (snd (startCamera (Rejected e) p))
       = calls (startCamera_request p) @ [ConsoleError ''Camera error:'' e]
   \<and> permissionDisplay (init (Rejected e) g d t p) = ''flex''
   \<and> calls (init (Rejected e) g d t p)
       = calls (startCamera_request p)
         @ [ConsoleError ''Camera error:'' e, ConsoleError ''Initialization error:'' e]
   \<and> watchId (init (Rejected e) g d t p) = watchId p
   \<and> datetimeText (init (Rejected e) g d t p) = datetimeText p
   \<and> fst (toggleCamera (Rejected e) p) = Inl e
   \<and> permissionDisplay (snd (toggleCamera (Rejected e) p)) = ''flex''"
  by (simp add: startCamera_def startCamera_settle_def init_def showPermissionMessage_def
      toggleCamera_def toggleCamera_request_def startCamera_request_def stop_tracks_def Let_def
      split: option.split)

subsection \<open>Failure of the location watch\<close>

text \<open>
  Claim C9. For every error the location watch reports, the coordinate display
  becomes \<^verbatim>\<open>Location unavailable\<close>; the handle of the watch is left as it was and the
  only call made is the \<^verbatim>\<open>console.error\<close> (no watch is cleared or started); a later
  fix sets the three displays exactly as it would have without the error.
\<close>

theorem location_error_keeps_watch:
  "coordinatesText (handleLocationError e p) = ''Location unavailable''
   \<and> watchId (handleLocationError e p) = watchId p
   \<and> calls (handleLocationError e p) = calls p @ [ConsoleError ''Location error:'' e]
   \<and> updatePosition ts fix (handleLocationError e p)
       = (updatePosition ts fix p)\<lparr>calls := calls p @ [ConsoleError ''Location error:'' e]\<rparr>"
  by (simp add: handleLocationError_def updatePosition_def Let_def)

subsection \<open>The facing mode across a failed toggle\<close>

text \<open>
  Claim C10. \<^verbatim>\<open>toggleCamera\<close> flips the facing mode before the \<^verbatim>\<open>await\<close>, and the request
  it issues carries the flipped mode; when the request is rejected the error is
  thrown and the mode stays flipped; a retry then requests the camera with the
  flipped mode and keeps it; two toggles that are both granted restore the mode.
\<close>

theorem toggle_flip_not_rolled_back:
  "facingMode (toggleCamera_request p) = (if facingMode p = Environment then User else Environment)
   \<and> last (calls (toggleCamera_request p))
       = GetUserMedia (if facingMode p = Environment then User else Environment) 1920 1080
   \<and> fst (toggleCamera (Rejected e) p) = Inl e
   \<and> facingMode (snd (toggleCamera (Rejected e) p))
       = (if facingMode p = Environment then User else Environment)
   \<and> last (calls (startCamera_request (snd (toggleCamera (Rejected e) p))))
       = GetUserMedia (if facingMode p = Environment then User else Environment) 1920 1080
   \<and> facingMode (init Granted g d t (snd (toggleCamera (Rejected e) p)))
       = (if facingMode p = Environment then User else Environment)
   \<and> facingMode (snd (toggleCamera Granted (snd (toggleCamera Granted p)))) = facingMode p"
  by (cases "facingMode p")
     (simp_all add: startCamera_def startCamera_settle_def init_def showPermissionMessage_def
      toggleCamera_def toggleCamera_request_def startCamera_request_def stop_tracks_def Let_def
      grant_def startClock_def updateClock_def startLocationTracking_def
      split: option.split)

subsection \<open>The displays of a position\<close>

lemma toFixed_nonneg:
  assumes "0 \<le> x" and "x < 10 ^ 21" and "0 < f"
    and "decimal (nat \<lfloor>x * 10 ^ f + 1 / 2\<rfloor>) = m" and "f < length m"
  shows "toFixed ts f x = take (length m - f) m @ ''.'' @ drop (length m - f) m"
  using assms by (simp add: toFixed_def Let_def not_le)

lemma toFixed_neg:
  assumes "x < 0" and "- x < 10 ^ 21" and "0 < f"
    and "decimal (nat \<lfloor>- x * 10 ^ f + 1 / 2\<rfloor>) = m" and "f < length m"
  shows "toFixed ts f x = ''-'' @ take (length m - f) m @ ''.'' @ drop (length m - f) m"
  using assms by (simp add: toFixed_def Let_def not_le)

lemma toFixed_latitude: "toFixed ts 6 (5266818885983951 / 140737488355328) = ''37.422999''"
proof -
  have "decimal (nat \<lfloor>(5266818885983951 / 140737488355328 :: rat) * 10 ^ 6 + 1 / 2\<rfloor>)
          = ''37422999''"
    by (simp add: floor_rat_numeral decimal.simps)
  from toFixed_nonneg [OF _ _ _ this] show ?thesis
    by simp
qed

lemma toFixed_longitude: "toFixed ts 6 (- (4295450887602175 / 35184372088832)) = ''-122.084057''"
proof -
  have "decimal (nat \<lfloor>- (- (4295450887602175 / 35184372088832 :: rat)) * 10 ^ 6 + 1 / 2\<rfloor>)
          = ''122084057''"
    by (simp add: floor_rat_numeral decimal.simps)
  from toFixed_neg [OF _ _ _ this] show ?thesis
    by simp
qed

lemma toFixed_altitude: "toFixed ts 1 (8687443681197687 / 70368744177664) = ''123.5''"
proof -
  have "decimal (nat \<lfloor>(8687443681197687 / 70368744177664 :: rat) * 10 ^ 1 + 1 / 2\<rfloor>)
          = ''1235''"
    by (simp add: floor_rat_numeral decimal.simps)
  from toFixed_nonneg [OF _ _ _ this] show ?thesis
    by simp
qed

lemma toFixed_accuracy: "toFixed ts 1 (5854679515581645 / 1125899906842624) = ''5.2''"
proof -
  have "decimal (nat \<lfloor>(5854679515581645 / 1125899906842624 :: rat) * 10 ^ 1 + 1 / 2\<rfloor>)
          = ''52''"
    by (simp add: floor_rat_numeral decimal.simps)
  from toFixed_nonneg [OF _ _ _ this] show ?thesis
    by simp
qed

text \<open>
  Below \<open>10\<^sup>2\<^sup>1\<close> in absolute value, \<^verbatim>\<open>toFixed(f)\<close> with \<open>f > 0\<close> yields an optional minus
  sign, at least one digit, the point, and exactly \<open>f\<close> digits.
\<close>

lemma toFixed_places:
  assumes "\<bar>x\<bar> < 10 ^ 21" and "0 < f"
  shows "\<exists>ip fp. toFixed ts f x = (if x < 0 then ''-'' else []) @ ip @ ''.'' @ fp
           \<and> ip \<noteq> [] \<and> length fp = f \<and> set (ip @ fp) \<subseteq> set ''0123456789''"
proof -
  define m0 where "m0 = decimal (nat \<lfloor>\<bar>x\<bar> * 10 ^ f + 1 / 2\<rfloor>)"
  define m where
    "m = (if length m0 \<le> f then replicate (f + 1 - length m0) CHR ''0'' @ m0 else m0)"
  have digits: "set m \<subseteq> set ''0123456789''"
    using decimal_digits [of "nat \<lfloor>\<bar>x\<bar> * 10 ^ f + 1 / 2\<rfloor>"]
    by (auto simp: m_def m0_def)
  have long: "f < length m"
    by (simp add: m_def)
  have "toFixed ts f x
          = (if x < 0 then ''-'' else []) @ take (length m - f) m @ ''.'' @ drop (length m - f) m"
    using assms by (simp add: toFixed_def Let_def m_def m0_def not_le abs_if)
  moreover have "take (length m - f) m \<noteq> []"
    using long by auto
  moreover have "length (drop (length m - f) m) = f"
    using long by simp
  moreover have "set (take (length m - f) m @ drop (length m - f) m) \<subseteq> set ''0123456789''"
    using digits by simp
  ultimately show ?thesis
    by blast
qed

text \<open>
  The three displays are set independently of each other: each optional field is
  formatted when present and reads \<^verbatim>\<open>N/A\<close> when it is \<^verbatim>\<open>null\<close>.
\<close>

lemma updatePosition_fields:
  "coordinatesText (updatePosition ts fix p)
     = toFixed ts 6 (latitude fix) @ '', '' @ toFixed ts 6 (longitude fix)"
  "altitude fix = None \<Longrightarrow> altitudeText (updatePosition ts fix p) = ''N/A''"
  "accuracy fix = None \<Longrightarrow> accuracyText (updatePosition ts fix p) = ''N/A''"
  "altitude fix = Some a \<Longrightarrow> altitudeText (updatePosition ts fix p) = toFixed ts 1 a @ '' m''"
  "accuracy fix = Some r \<Longrightarrow>
     accuracyText (updatePosition ts fix p) = [CHR 0xC2, CHR 0xB1] @ toFixed ts 1 r @ '' m''"
  by (simp_all add: updatePosition_def Let_def)

text \<open>
  Claim C5, at the fix (37.422999, \<open>-\<close>122.084057, altitude 123.456, accuracy 5.2). The
  coordinate and altitude displays are the strings the claim gives. The accuracy
  display of the newer revision begins with the two code units U+00C2 U+00B1, where
  the claim has the single plus-minus sign U+00B1, which is what the older revision
  writes.
\<close>

theorem updatePosition_accuracy_prefix:
  "coordinatesText (updatePosition ts example_fix p) = ''37.422999, -122.084057''
   \<and> altitudeText (updatePosition ts example_fix p) = ''123.5 m''
   \<and> accuracyText (updatePosition ts example_fix p) = [CHR 0xC2, CHR 0xB1] @ ''5.2 m''
   \<and> accuracyText (updatePosition ts example_fix p) \<noteq> [CHR 0xB1] @ ''5.2 m''
   \<and> accuracyText (updatePosition_script ts example_fix p) = [CHR 0xB1] @ ''5.2 m''"
  by (simp add: updatePosition_def updatePosition_script_def example_fix_def Let_def
      toFixed_latitude toFixed_longitude toFixed_altitude toFixed_accuracy del: One_nat_def)

subsection \<open>Open camera sessions\<close>

lemma open_sessions_subset_length:
  assumes "set (open_sessions p) \<subseteq> {s}"
  shows "length (open_sessions p) \<le> 1"
proof -
  have "distinct (open_sessions p)"
    by (simp add: open_sessions_def)
  then have "length (open_sessions p) = card (set (open_sessions p))"
    by (simp add: distinct_card)
  also have "\<dots> \<le> card {s}"
    using assms by (intro card_mono) simp_all
  finally show ?thesis by simp
qed

lemma owned_length: "owned p \<Longrightarrow> length (open_sessions p) \<le> 1"
proof (cases "stream p")
  case None
  moreover assume "owned p"
  ultimately show ?thesis
    by (simp add: owned_def)
next
  case (Some s)
  moreover assume "owned p"
  ultimately have "set (open_sessions p) \<subseteq> {s}"
    by (simp add: owned_def)
  then show ?thesis
    by (rule open_sessions_subset_length)
qed

lemma open_sessions_calls [simp]: "open_sessions (p\<lparr>calls := c\<rparr>) = open_sessions p"
  by (simp add: open_sessions_def tracks_of_def)

lemma open_sessions_facingMode [simp]: "open_sessions (p\<lparr>facingMode := c\<rparr>) = open_sessions p"
  by (simp add: open_sessions_def tracks_of_def)

lemma open_sessions_stop_tracks:
  "open_sessions (stop_tracks s p) = filter (\<lambda>t. t \<noteq> s) (open_sessions p)"
  unfolding open_sessions_def stop_tracks_def tracks_of_def
  by (auto intro!: filter_cong simp: nth_list_update)

text \<open>
  The synchronous part of \<^verbatim>\<open>startCamera\<close> stops the stream the global holds: when
  that is the only stream that may be open, none is open at the \<^verbatim>\<open>await\<close>.
\<close>

lemma request_closes:
  assumes "owned p"
  shows "open_sessions (startCamera_request p) = []"
proof (cases "stream p")
  case None
  with assms show ?thesis
    by (simp add: owned_def startCamera_request_def)
next
  case (Some s)
  with assms have "set (open_sessions p) \<subseteq> {s}"
    by (simp add: owned_def)
  then have "filter (\<lambda>t. t \<noteq> s) (open_sessions p) = []"
    by (auto simp: filter_empty_conv)
  with Some show ?thesis
    by (simp add: startCamera_request_def open_sessions_stop_tracks Let_def)
qed

lemma owned_facingMode [simp]: "owned (p\<lparr>facingMode := c\<rparr>) = owned p"
  by (simp add: owned_def)

lemma toggle_request_closes: "owned p \<Longrightarrow> open_sessions (toggleCamera_request p) = []"
  by (simp add: toggleCamera_request_def request_closes)

lemma settle_granted:
  assumes "open_sessions p = []"
  shows "open_sessions (snd (startCamera_settle Granted p)) = [length (hardware p)]"
    and "stream (snd (startCamera_settle Granted p)) = Some (length (hardware p))"
proof -
  show "stream (snd (startCamera_settle Granted p)) = Some (length (hardware p))"
    by (simp add: startCamera_settle_def grant_def)
  have "\<forall>s < length (hardware p). Live \<notin> set (hardware p ! s)"
    using assms by (auto simp: open_sessions_def tracks_of_def filter_empty_conv)
  then show "open_sessions (snd (startCamera_settle Granted p)) = [length (hardware p)]"
    by (auto simp: startCamera_settle_def grant_def open_sessions_def tracks_of_def nth_append
        filter_empty_conv)
qed

lemma settle_rejected:
  "open_sessions (snd (startCamera_settle (Rejected e) p)) = open_sessions p"
  by (simp add: startCamera_settle_def showPermissionMessage_def open_sessions_def tracks_of_def)

lemma settle_owned:
  assumes "open_sessions p = []"
  shows "owned (snd (startCamera_settle outcome p))"
proof (cases outcome)
  case Granted
  with settle_granted [OF assms] show ?thesis
    by (simp add: owned_def)
next
  case (Rejected e)
  with assms show ?thesis
    by (simp add: owned_def settle_rejected)
qed

lemma serial_run:
  "serial es \<Longrightarrow> owned p \<Longrightarrow>
   (case run es (p, 0) of
      (q, n) \<Rightarrow> (n = 0 \<and> owned q) \<or> (n = 1 \<and> open_sessions q = []))"
  by (induction es arbitrary: p rule: serial.induct)
     (simp_all add: request_closes toggle_request_closes settle_owned)

lemma serial_take: "serial es \<Longrightarrow> serial (take k es)"
  by (induction es arbitrary: k rule: serial.induct) (auto simp: take_Cons')

text \<open>
  Calls that do not overlap keep at most one session open, at every moment of the
  run (after every prefix, the one that ends at a pending \<^verbatim>\<open>await\<close> included).
\<close>

lemma serial_calls_one_session:
  assumes "serial es" and "owned p"
  shows "length (open_sessions (fst (run (take k es) (p, 0)))) \<le> 1"
proof -
  from assms(1) have "serial (take k es)"
    by (rule serial_take)
  from serial_run [OF this assms(2)] show ?thesis
    by (auto dest: owned_length split: prod.splits)
qed

lemma initial_page_owned: "owned initial_page"
  by (simp add: owned_def open_sessions_def initial_page_def)

text \<open>
  Claim C4, at a camera start that is granted, followed by two toggles of which the
  second begins while the first waits at its \<^verbatim>\<open>await\<close>, both requests granted. Each
  toggle stops the stream of the start (handle 0); the stream of the first toggle
  (handle 1) is installed and then replaced by that of the second (handle 2)
  without being stopped. Two sessions are open, and the global holds only the last.
\<close>

theorem overlapping_toggles_two_sessions:
  "open_sessions
     (fst (run [CallStartCamera, Settle Granted,
                CallToggleCamera, CallToggleCamera, Settle Granted, Settle Granted]
            (initial_page, 0))) = [1, 2]
   \<and> stream
       (fst (run [CallStartCamera, Settle Granted,
                  CallToggleCamera, CallToggleCamera, Settle Granted, Settle Granted]
              (initial_page, 0))) = Some 2"
  by (simp add: open_sessions_def tracks_of_def toggleCamera_request_def startCamera_request_def
      startCamera_settle_def grant_def stop_tracks_def initial_page_def Let_def)

end
